theory Spec2Isabelle
  imports Complex_Main "HOL-Library.Multiset" "HOL-Library.Char_ord" "HOL-Library.List_Lexorder"
    "HOL-Library.Sublist"
begin

section \<open>Data model\<close>

text \<open>
  The program keeps its diagram in Python objects that refer to each other: a
  \<^verbatim>\<open>Block\<close> lists the connections attached to it, a \<^verbatim>\<open>FIFOConnection\<close>
  refers to its two blocks, and the window object \<^verbatim>\<open>HardwareDesignGUI\<close> lists both.
  Object identity is modelled by references into two stores; Python's \<^verbatim>\<open>==\<close> on
  blocks and connections (neither class defines \<^verbatim>\<open>__eq__\<close>) is equality of references.

  Field names carry a prefix where two classes use the same attribute name
  (\<^verbatim>\<open>name\<close>, \<^verbatim>\<open>width\<close>, \<^verbatim>\<open>connections\<close>) or where the attribute is a
  single letter. Canvas item ids, the \<^verbatim>\<open>selected\<close> flags and the drag state belong to
  the rendering layer and are left out. The attribute \<^verbatim>\<open>curve_points\<close> of a
  connection, which only \<^verbatim>\<open>draw\<close> writes, is kept in a store of its own beside the
  store of the other attributes. Coordinates and sizes are exact rationals: the rounding of
  Python's binary floating point is not modelled (\<^verbatim>\<open>0.6\<close> is \<open>3/5\<close>).
\<close>

type_synonym block_ref = nat
type_synonym conn_ref = nat

record Block =
  b_x :: rat
  b_y :: rat
  b_width :: rat
  b_height :: rat
  b_name :: string
  b_number :: "int option"
  b_connections :: "conn_ref list"

record FIFOConnection =
  source_block :: block_ref
  target_block :: block_ref
  c_name :: string
  depth :: int
  c_width :: int
  src_ch_num :: int
  dst_ch_num :: int

record HardwareDesignGUI =
  block_store :: "block_ref \<Rightarrow> Block"
  conn_store :: "conn_ref \<Rightarrow> FIFOConnection"
  curve_points :: "conn_ref \<Rightarrow> rat list"
  next_block :: block_ref
  next_conn :: conn_ref
  blocks :: "block_ref list"
  connections :: "conn_ref list"

section \<open>Block: channel bookkeeping\<close>

text \<open>
  \<^verbatim>\<open>channel_num = 0; while channel_num in used_channels: channel_num += 1\<close>.
  The set \<^verbatim>\<open>used_channels\<close> is only tested for membership, so a list stands for it.
\<close>

function first_free :: "int list \<Rightarrow> int \<Rightarrow> int" where
  "first_free used_channels channel_num =
     (if channel_num \<in> set used_channels then first_free used_channels (channel_num + 1)
      else channel_num)"
  by pat_completeness auto

lemma filter_ge_shrinks:
  "(n::int) \<in> set used \<Longrightarrow>
   length (filter (\<lambda>c. n + 1 \<le> c) used) < length (filter (\<lambda>c. n \<le> c) used)"
proof (induction used)
  case Nil
  then show ?case by simp
next
  case (Cons a used)
  have le: "length (filter (\<lambda>c. n + 1 \<le> c) used) \<le> length (filter (\<lambda>c. n \<le> c) used)"
    by (induction used) auto
  show ?case
  proof (cases "a = n")
    case True
    with le show ?thesis by simp
  next
    case False
    with Cons have "n \<in> set used" by simp
    with Cons.IH show ?thesis by auto
  qed
qed

termination first_free
  by (relation "measure (\<lambda>(used, n). length (filter (\<lambda>c. n \<le> c) used))")
     (auto simp: filter_ge_shrinks)

declare first_free.simps [simp del]

definition src_used_channels :: "HardwareDesignGUI \<Rightarrow> block_ref \<Rightarrow> int list" where
  "src_used_channels s self =
     map (\<lambda>conn. src_ch_num (conn_store s conn))
       (filter (\<lambda>conn. source_block (conn_store s conn) = self)
          (b_connections (block_store s self)))"

definition dst_used_channels :: "HardwareDesignGUI \<Rightarrow> block_ref \<Rightarrow> int list" where
  "dst_used_channels s self =
     map (\<lambda>conn. dst_ch_num (conn_store s conn))
       (filter (\<lambda>conn. target_block (conn_store s conn) = self)
          (b_connections (block_store s self)))"

definition get_next_available_src_channel :: "HardwareDesignGUI \<Rightarrow> block_ref \<Rightarrow> int" where
  "get_next_available_src_channel s self = first_free (src_used_channels s self) 0"

definition get_next_available_dst_channel :: "HardwareDesignGUI \<Rightarrow> block_ref \<Rightarrow> int" where
  "get_next_available_dst_channel s self = first_free (dst_used_channels s self) 0"

definition can_add_connection :: "HardwareDesignGUI \<Rightarrow> block_ref \<Rightarrow> bool" where
  "can_add_connection s self \<longleftrightarrow> length (b_connections (block_store s self)) < 15"

section \<open>Block: attachment points\<close>

text \<open>
  \<^verbatim>\<open>Block.get_connection_point(self, other_block, connection_index, total_connections)\<close>.
  The two integer arguments come from \<^verbatim>\<open>len\<close> and \<^verbatim>\<open>list.index\<close>, hence naturals.
\<close>

definition get_connection_point :: "Block \<Rightarrow> Block \<Rightarrow> nat \<Rightarrow> nat \<Rightarrow> rat \<times> rat" where
  "get_connection_point self other_block connection_index total_connections =
     (let (x, y) =
        (if b_x other_block < b_x self then
           (b_x self, b_y self + b_height self / 2)
         else if b_x other_block > b_x self + b_width self then
           (b_x self + b_width self, b_y self + b_height self / 2)
         else if b_y other_block < b_y self then
           (b_x self + b_width self / 2, b_y self)
         else
           (b_x self + b_width self / 2, b_y self + b_height self))
      in
        if total_connections > 1 then
          (if b_x other_block < b_x self \<or> b_x other_block > b_x self + b_width self then
             (let offset_range = min (b_height self * (3 / 5)) (of_nat total_connections * 10);
                  step = offset_range / (of_nat total_connections - 1);
                  offset = - offset_range / 2 + of_nat connection_index * step
              in (x, y + offset))
           else
             (let offset_range = min (b_width self * (3 / 5)) (of_nat total_connections * 10);
                  step = offset_range / (of_nat total_connections - 1);
                  offset = - offset_range / 2 + of_nat connection_index * step
              in (x + offset, y)))
        else (x, y))"

section \<open>FIFOConnection\<close>

text \<open>
  The test that a connection joins the unordered pair of blocks \<open>a\<close>, \<open>b\<close>; the source
  writes it out in \<^verbatim>\<open>draw\<close>, \<^verbatim>\<open>create_connection_between_blocks\<close> and
  \<^verbatim>\<open>delete_connection\<close>.
\<close>

definition joins :: "HardwareDesignGUI \<Rightarrow> block_ref \<Rightarrow> block_ref \<Rightarrow> conn_ref \<Rightarrow> bool" where
  "joins s a b conn \<longleftrightarrow>
     (source_block (conn_store s conn) = a \<and> target_block (conn_store s conn) = b) \<or>
     (source_block (conn_store s conn) = b \<and> target_block (conn_store s conn) = a)"

text \<open>\<^verbatim>\<open>list.index\<close>, used only on a list that holds the element.\<close>

fun index_of :: "'a list \<Rightarrow> 'a \<Rightarrow> nat" where
  "index_of [] a = 0"
| "index_of (x # xs) a = (if x = a then 0 else Suc (index_of xs a))"

definition connections_between :: "HardwareDesignGUI \<Rightarrow> conn_ref \<Rightarrow> conn_ref list" where
  "connections_between s self =
     filter (joins s (source_block (conn_store s self)) (target_block (conn_store s self)))
       (b_connections (block_store s (source_block (conn_store s self))))"

definition total_connections :: "HardwareDesignGUI \<Rightarrow> conn_ref \<Rightarrow> nat" where
  "total_connections s self = length (connections_between s self)"

definition connection_index :: "HardwareDesignGUI \<Rightarrow> conn_ref \<Rightarrow> nat" where
  "connection_index s self =
     (if self \<in> set (connections_between s self) then index_of (connections_between s self) self
      else 0)"

definition start_point :: "HardwareDesignGUI \<Rightarrow> conn_ref \<Rightarrow> rat \<times> rat" where
  "start_point s self =
     get_connection_point (block_store s (source_block (conn_store s self)))
       (block_store s (target_block (conn_store s self)))
       (connection_index s self) (total_connections s self)"

definition end_point :: "HardwareDesignGUI \<Rightarrow> conn_ref \<Rightarrow> rat \<times> rat" where
  "end_point s self =
     get_connection_point (block_store s (target_block (conn_store s self)))
       (block_store s (source_block (conn_store s self)))
       (connection_index s self) (total_connections s self)"

text \<open>
  The part of \<^verbatim>\<open>FIFOConnection.draw\<close> that computes \<^verbatim>\<open>self.curve_points\<close>, the flat
  list \<open>x0, y0, x1, y1, ...\<close> that is handed to the canvas and kept for hit-testing.
\<close>

definition draw_points :: "HardwareDesignGUI \<Rightarrow> conn_ref \<Rightarrow> rat list" where
  "draw_points s self =
     (let (start_x, start_y) = start_point s self;
          (end_x, end_y) = end_point s self;
          idx = connection_index s self
      in
        if total_connections s self > 1 \<and> idx > 0 then
          (let mid_x = (start_x + end_x) / 2;
               mid_y = (start_y + end_y) / 2;
               curve_offset = 30 + of_nat idx * 15;
               dx = end_x - start_x;
               dy = end_y - start_y;
               (curve_x, curve_y) =
                 (if \<bar>dx\<bar> > \<bar>dy\<bar> then
                    (mid_x, mid_y + (if idx mod 2 = 1 then curve_offset else - curve_offset))
                  else
                    (mid_x + (if idx mod 2 = 1 then curve_offset else - curve_offset), mid_y))
           in concat (map (\<lambda>i. let t = of_nat i / 20 in
                 [(1 - t)\<^sup>2 * start_x + 2 * (1 - t) * t * curve_x + t\<^sup>2 * end_x,
                  (1 - t)\<^sup>2 * start_y + 2 * (1 - t) * t * curve_y + t\<^sup>2 * end_y])
                [0..<21]))
        else [start_x, start_y, end_x, end_y])"

definition draw :: "HardwareDesignGUI \<Rightarrow> conn_ref \<Rightarrow> HardwareDesignGUI" where
  "draw s self =
     s\<lparr>curve_points := (curve_points s)(self := draw_points s self)\<rparr>"

definition append_connection :: "HardwareDesignGUI \<Rightarrow> block_ref \<Rightarrow> conn_ref \<Rightarrow> HardwareDesignGUI" where
  "append_connection s b conn =
     s\<lparr>block_store := (block_store s)
         (b := (block_store s b)\<lparr>b_connections := b_connections (block_store s b) @ [conn]\<rparr>)\<rparr>"

text \<open>
  \<^verbatim>\<open>FIFOConnection.__init__\<close>: a channel argument of \<^verbatim>\<open>None\<close> asks for automatic
  assignment. Both channels are computed before the connection is appended to the two
  blocks' lists. The new object takes the next free reference.
\<close>

definition FIFOConnection_init ::
  "HardwareDesignGUI \<Rightarrow> block_ref \<Rightarrow> block_ref \<Rightarrow> string \<Rightarrow> int \<Rightarrow> int \<Rightarrow> int option \<Rightarrow> int option
     \<Rightarrow> HardwareDesignGUI \<times> conn_ref" where
  "FIFOConnection_init s source target name dep wid src dst =
     (let self = next_conn s;
          src_ch = (case src of None \<Rightarrow> get_next_available_src_channel s source | Some n \<Rightarrow> n);
          dst_ch = (case dst of None \<Rightarrow> get_next_available_dst_channel s target | Some n \<Rightarrow> n);
          s1 = s\<lparr>conn_store := (conn_store s)
                 (self := \<lparr>source_block = source, target_block = target, c_name = name,
                           depth = dep, c_width = wid, src_ch_num = src_ch,
                           dst_ch_num = dst_ch\<rparr>),
               curve_points := (curve_points s)(self := []),
               next_conn := Suc self\<rparr>;
          s2 = append_connection s1 source self;
          s3 = append_connection s2 target self
      in (draw s3 self, self))"

text \<open>\<^verbatim>\<open>Block.__init__\<close>, with the defaults \<^verbatim>\<open>width=150, height=80\<close> given by the callers.\<close>

definition Block_init ::
  "HardwareDesignGUI \<Rightarrow> rat \<Rightarrow> rat \<Rightarrow> rat \<Rightarrow> rat \<Rightarrow> string \<Rightarrow> int option
     \<Rightarrow> HardwareDesignGUI \<times> block_ref" where
  "Block_init s x y wid hei name num =
     (let self = next_block s
      in (s\<lparr>block_store := (block_store s)
              (self := \<lparr>b_x = x, b_y = y, b_width = wid, b_height = hei, b_name = name,
                        b_number = num, b_connections = []\<rparr>),
            next_block := Suc self\<rparr>, self))"

section \<open>HardwareDesignGUI: editing the diagram\<close>

text \<open>Python's \<^verbatim>\<open>str\<close> of a non-negative integer, for \<^verbatim>\<open>f"FIFO_{n}"\<close>.\<close>

fun str_nat :: "nat \<Rightarrow> string" where
  "str_nat n =
     (if n < 10 then [''0123456789'' ! n]
      else str_nat (n div 10) @ [''0123456789'' ! (n mod 10)])"

declare str_nat.simps [simp del]

text \<open>The loop \<^verbatim>\<open>for connection in self.connections: if <joins the pair>: connection.draw()\<close>.\<close>

definition redraw_between :: "HardwareDesignGUI \<Rightarrow> block_ref \<Rightarrow> block_ref \<Rightarrow> HardwareDesignGUI" where
  "redraw_between s a b =
     fold (\<lambda>connection s'. if joins s' a b connection then draw s' connection else s')
       (connections s) s"

definition create_connection_between_blocks ::
  "HardwareDesignGUI \<Rightarrow> block_ref \<Rightarrow> block_ref \<Rightarrow> HardwareDesignGUI \<times> bool" where
  "create_connection_between_blocks s source target =
     (if source \<noteq> target \<and> can_add_connection s source \<and> can_add_connection s target then
        (let existing_connections = length (filter (joins s source target) (connections s));
             fifo_name = (if existing_connections > 0
                          then ''FIFO_'' @ str_nat (existing_connections + 1)
                          else ''FIFO'');
             (s1, conn) = FIFOConnection_init s source target fifo_name 16 32 None None;
             s2 = s1\<lparr>connections := connections s1 @ [conn]\<rparr>
         in (redraw_between s2 source target, True))
      else (s, False))"

text \<open>
  \<^verbatim>\<open>delete_connection(connection, confirm)\<close>; \<open>answer\<close> is what the user replies to the
  confirmation box, which is shown only when \<^verbatim>\<open>confirm\<close> is set.
\<close>

definition remove_connection :: "HardwareDesignGUI \<Rightarrow> block_ref \<Rightarrow> conn_ref \<Rightarrow> HardwareDesignGUI" where
  "remove_connection s b conn =
     s\<lparr>block_store := (block_store s)
         (b := (block_store s b)\<lparr>b_connections := remove1 conn (b_connections (block_store s b))\<rparr>)\<rparr>"

definition delete_connection ::
  "HardwareDesignGUI \<Rightarrow> conn_ref \<Rightarrow> bool \<Rightarrow> bool \<Rightarrow> HardwareDesignGUI" where
  "delete_connection s connection confirm answer =
     (if confirm \<and> \<not> answer then s
      else
        (let s1 = remove_connection s (source_block (conn_store s connection)) connection;
             s2 = remove_connection s1 (target_block (conn_store s1 connection)) connection;
             s3 = s2\<lparr>connections := remove1 connection (connections s2)\<rparr>
         in redraw_between s3 (source_block (conn_store s3 connection))
              (target_block (conn_store s3 connection))))"

definition delete_block :: "HardwareDesignGUI \<Rightarrow> block_ref \<Rightarrow> bool \<Rightarrow> HardwareDesignGUI" where
  "delete_block s block answer =
     (if answer then
        (let connections_to_remove =
               filter (\<lambda>conn. source_block (conn_store s conn) = block \<or>
                              target_block (conn_store s conn) = block) (connections s);
             s1 = fold (\<lambda>conn s'. delete_connection s' conn False False) connections_to_remove s
         in s1\<lparr>blocks := remove1 block (blocks s1)\<rparr>)
      else s)"

text \<open>
  \<^verbatim>\<open>apply_changes\<close> of \<^verbatim>\<open>edit_connection_properties_direct\<close>. The dialog's fields are
  taken as already parsed: \<open>new_name\<close> is the stripped text, the four numbers are what
  \<^verbatim>\<open>int(...)\<close> returned.
\<close>

definition edit_connection_apply_changes ::
  "HardwareDesignGUI \<Rightarrow> conn_ref \<Rightarrow> string \<Rightarrow> int \<Rightarrow> int \<Rightarrow> int \<Rightarrow> int \<Rightarrow> HardwareDesignGUI" where
  "edit_connection_apply_changes s connection new_name new_depth new_width new_src_ch new_dst_ch =
     (if new_name = [] then s
      else if new_depth \<le> 0 \<or> new_width \<le> 0 then s
      else if new_src_ch < 0 \<or> new_dst_ch < 0 then s
      else
        draw (s\<lparr>conn_store := (conn_store s)
                 (connection := (conn_store s connection)
                    \<lparr>c_name := new_name, depth := new_depth, c_width := new_width,
                     src_ch_num := new_src_ch, dst_ch_num := new_dst_ch\<rparr>)\<rparr>) connection)"

text \<open>
  \<^verbatim>\<open>reassign_all_channels\<close> (a closure of \<^verbatim>\<open>show_connection_info\<close>): the first loop
  takes every connection out of its blocks' lists, the second gives it fresh channels and
  puts it back. \<open>answer\<close> is the reply to the confirmation box.
\<close>

definition detach :: "HardwareDesignGUI \<Rightarrow> conn_ref \<Rightarrow> HardwareDesignGUI" where
  "detach s conn =
     (let s1 = remove_connection s (source_block (conn_store s conn)) conn
      in remove_connection s1 (target_block (conn_store s1 conn)) conn)"

definition reattach :: "HardwareDesignGUI \<Rightarrow> conn_ref \<Rightarrow> HardwareDesignGUI" where
  "reattach s conn =
     (let s1 = s\<lparr>conn_store := (conn_store s)
                 (conn := (conn_store s conn)
                    \<lparr>src_ch_num := get_next_available_src_channel s (source_block (conn_store s conn))\<rparr>)\<rparr>;
          s2 = s1\<lparr>conn_store := (conn_store s1)
                 (conn := (conn_store s1 conn)
                    \<lparr>dst_ch_num := get_next_available_dst_channel s1 (target_block (conn_store s1 conn))\<rparr>)\<rparr>;
          s3 = append_connection s2 (source_block (conn_store s2 conn)) conn;
          s4 = append_connection s3 (target_block (conn_store s3 conn)) conn
      in draw s4 conn)"

definition reassign_all_channels :: "HardwareDesignGUI \<Rightarrow> bool \<Rightarrow> HardwareDesignGUI" where
  "reassign_all_channels s answer =
     (if connections s = [] then s
      else if answer then
        (let s1 = fold (\<lambda>conn s'. detach s' conn) (connections s) s
         in fold (\<lambda>conn s'. reattach s' conn) (connections s1) s1)
      else s)"

text \<open>
  \<^verbatim>\<open>new_design\<close>: when the design is not empty the user is asked first, and a refusal
  (\<open>answer = False\<close>) returns without clearing.
\<close>

definition new_design :: "HardwareDesignGUI \<Rightarrow> bool \<Rightarrow> HardwareDesignGUI" where
  "new_design s answer =
     (if (blocks s \<noteq> [] \<or> connections s \<noteq> []) \<and> \<not> answer then s
      else s\<lparr>blocks := [], connections := []\<rparr>)"

text \<open>
  \<^verbatim>\<open>add_block\<close>: \<open>name\<close> is the text of the name dialog; an empty or cancelled dialog adds
  nothing.
\<close>

definition add_block :: "HardwareDesignGUI \<Rightarrow> string \<Rightarrow> HardwareDesignGUI" where
  "add_block s name =
     (if name = [] then s
      else
        (let (x, y) =
               (if blocks s \<noteq> [] then
                  (let max_x = Max (set (map (\<lambda>b. b_x (block_store s b) + b_width (block_store s b))
                                            (blocks s)))
                   in if max_x + 50 > 800 then
                        (100, Max (set (map (\<lambda>b. b_y (block_store s b) + b_height (block_store s b))
                                          (blocks s))) + 50)
                      else (max_x + 50, 100))
                else (100, 100));
             (s1, block) = Block_init s x y 150 80 name None
         in s1\<lparr>blocks := blocks s1 @ [block]\<rparr>))"

text \<open>The window as \<^verbatim>\<open>HardwareDesignGUI.__init__\<close> leaves it: no blocks, no connections.\<close>

definition init_gui :: HardwareDesignGUI where
  "init_gui =
     \<lparr>block_store = (\<lambda>_. \<lparr>b_x = 0, b_y = 0, b_width = 150, b_height = 80, b_name = ''Module'',
                          b_number = None, b_connections = []\<rparr>),
      conn_store = (\<lambda>_. \<lparr>source_block = 0, target_block = 0, c_name = ''FIFO'', depth = 16,
                         c_width = 32, src_ch_num = 0, dst_ch_num = 0\<rparr>),
      curve_points = (\<lambda>_. []),
      next_block = 0, next_conn = 0, blocks = [], connections = []\<rparr>"

section \<open>Notions of the specification\<close>






section \<open>JSON values\<close>

text \<open>
  What \<^verbatim>\<open>json.load\<close> returns and \<^verbatim>\<open>json.dump\<close> takes. A file is modelled by the
  value it holds: the text that the writers produce (pretty-printed metadata and blocks,
  one connection per line) and its parsing by the \<^verbatim>\<open>json\<close> module are not modelled.
  An object is the list of its members; a key is looked up from the front.
\<close>

datatype json =
    JNull
  | JBool bool
  | JInt int
  | JNum rat
  | JStr string
  | JArr "json list"
  | JObj "(string \<times> json) list"

text \<open>The exceptions that reading a parsed file can raise.\<close>

datatype py_error = KeyError | TypeError

datatype outcome = Success | Failed

fun ebind :: "py_error + 'a \<Rightarrow> ('a \<Rightarrow> py_error + 'b) \<Rightarrow> py_error + 'b" where
  "ebind (Inl e) f = Inl e"
| "ebind (Inr v) f = f v"

text \<open>\<^verbatim>\<open>d[key]\<close>: a missing key raises, and so does indexing anything but an object by a string.\<close>

fun getitem :: "json \<Rightarrow> string \<Rightarrow> py_error + json" where
  "getitem (JObj members) key =
     (case map_of members key of None \<Rightarrow> Inl KeyError | Some v \<Rightarrow> Inr v)"
| "getitem _ key = Inl TypeError"

text \<open>\<^verbatim>\<open>d.get(key)\<close> and \<^verbatim>\<open>d.get(key, default)\<close>; only objects have the method.\<close>

fun get_default :: "json \<Rightarrow> string \<Rightarrow> json \<Rightarrow> py_error + json" where
  "get_default (JObj members) key dflt =
     (case map_of members key of None \<Rightarrow> Inr dflt | Some v \<Rightarrow> Inr v)"
| "get_default _ key dflt = Inl TypeError"

text \<open>
  \<^verbatim>\<open>key in d\<close>: membership among the keys of an object, among the elements of a list,
  as a substring of a string; the other values raise.
\<close>

fun is_substring :: "string \<Rightarrow> string \<Rightarrow> bool" where
  "is_substring key [] = (key = [])"
| "is_substring key (c # cs) = (take (length key) (c # cs) = key \<or> is_substring key cs)"

fun contains :: "json \<Rightarrow> string \<Rightarrow> py_error + bool" where
  "contains (JObj members) key = Inr (key \<in> set (map fst members))"
| "contains (JArr elems) key = Inr (JStr key \<in> set elems)"
| "contains (JStr str) key = Inr (is_substring key str)"
| "contains _ key = Inl TypeError"

text \<open>
  \<^verbatim>\<open>for item in v\<close>: the elements of a list, the keys of an object, the characters of a
  string; the other values raise.
\<close>

fun iterate :: "json \<Rightarrow> py_error + json list" where
  "iterate (JArr elems) = Inr elems"
| "iterate (JObj members) = Inr (map (\<lambda>(k, v). JStr k) members)"
| "iterate (JStr str) = Inr (map (\<lambda>c. JStr [c]) str)"
| "iterate _ = Inl TypeError"

text \<open>
  The attributes are typed in the model, so a value read from a file is converted to the
  type that the writers of the program give the attribute: a number for a coordinate or a
  size, a string for a name, an integer for a depth, a width or a channel, an integer or
  \<^verbatim>\<open>null\<close> for a block number. A value of another JSON type raises \<open>TypeError\<close> here,
  where the program would store it as it is; such files are outside the model.
\<close>

fun as_num :: "json \<Rightarrow> py_error + rat" where
  "as_num (JInt i) = Inr (of_int i)"
| "as_num (JNum r) = Inr r"
| "as_num _ = Inl TypeError"

fun as_int :: "json \<Rightarrow> py_error + int" where
  "as_int (JInt i) = Inr i"
| "as_int _ = Inl TypeError"

fun as_str :: "json \<Rightarrow> py_error + string" where
  "as_str (JStr str) = Inr str"
| "as_str _ = Inl TypeError"

text \<open>
  A channel or a block number may be \<^verbatim>\<open>null\<close>, Python's \<^verbatim>\<open>None\<close>: for a channel
  \<^verbatim>\<open>FIFOConnection.__init__\<close> then assigns one itself.
\<close>

fun as_optional_int :: "json \<Rightarrow> py_error + int option" where
  "as_optional_int JNull = Inr None"
| "as_optional_int (JInt i) = Inr (Some i)"
| "as_optional_int _ = Inl TypeError"

section \<open>Saving and loading a design\<close>




text \<open>
  The arguments of \<^verbatim>\<open>Block(...)\<close> in \<^verbatim>\<open>load_json\<close>, read in the order in which Python
  evaluates them.
\<close>

definition read_block ::
  "json \<Rightarrow> py_error + (rat \<times> rat \<times> rat \<times> rat \<times> string \<times> int option)" where
  "read_block block_data' =
     ebind (ebind (getitem block_data' ''x'') as_num) (\<lambda>x.
     ebind (ebind (getitem block_data' ''y'') as_num) (\<lambda>y.
     ebind (ebind (getitem block_data' ''width'') as_num) (\<lambda>w.
     ebind (ebind (getitem block_data' ''height'') as_num) (\<lambda>h.
     ebind (ebind (getitem block_data' ''name'') as_str) (\<lambda>name.
     ebind (ebind (get_default block_data' ''number'' JNull) as_optional_int) (\<lambda>num.
     Inr (x, y, w, h, name, num)))))))"

text \<open>
  The loops of \<^verbatim>\<open>load_json\<close> run inside its \<^verbatim>\<open>try\<close>: an exception ends the loading
  and leaves the diagram as it is at that moment, so each loop returns the diagram it
  reached together with the exception, if any.
\<close>

fun load_blocks ::
  "json list \<Rightarrow> HardwareDesignGUI \<Rightarrow> (string \<rightharpoonup> block_ref)
     \<Rightarrow> py_error option \<times> HardwareDesignGUI \<times> (string \<rightharpoonup> block_ref)" where
  "load_blocks [] s block_map = (None, s, block_map)"
| "load_blocks (block_data' # rest) s block_map =
     (case read_block block_data' of
        Inl e \<Rightarrow> (Some e, s, block_map)
      | Inr (x, y, w, h, name, num) \<Rightarrow>
          (let (s1, block) = Block_init s x y w h name num;
               s2 = s1\<lparr>blocks := blocks s1 @ [block]\<rparr>
           in load_blocks rest s2 (block_map(name \<mapsto> block))))"

definition read_names :: "json \<Rightarrow> string \<Rightarrow> string \<Rightarrow> py_error + (string \<times> string)" where
  "read_names conn_data' src_key dst_key =
     ebind (ebind (getitem conn_data' src_key) as_str) (\<lambda>source_name.
     ebind (ebind (getitem conn_data' dst_key) as_str) (\<lambda>target_name.
     Inr (source_name, target_name)))"

text \<open>
  The arguments \<^verbatim>\<open>conn_data["name"], conn_data[depth_key], conn_data["width"],
  conn_data.get("src_ch_num", 0), conn_data.get("dst_ch_num", 0)\<close> of
  \<^verbatim>\<open>FIFOConnection(...)\<close> in \<^verbatim>\<open>load_json\<close>; the depth is under \<^verbatim>\<open>"qd"\<close> in the
  current format and under \<^verbatim>\<open>"depth"\<close> in the old one.
\<close>

definition read_saved_connection ::
  "json \<Rightarrow> string \<Rightarrow> py_error + (string \<times> int \<times> int \<times> int option \<times> int option)" where
  "read_saved_connection conn_data' depth_key =
     ebind (ebind (getitem conn_data' ''name'') as_str) (\<lambda>name.
     ebind (ebind (getitem conn_data' depth_key) as_int) (\<lambda>dep.
     ebind (ebind (getitem conn_data' ''width'') as_int) (\<lambda>wid.
     ebind (ebind (get_default conn_data' ''src_ch_num'' (JInt 0)) as_optional_int) (\<lambda>src.
     ebind (ebind (get_default conn_data' ''dst_ch_num'' (JInt 0)) as_optional_int) (\<lambda>dst.
     Inr (name, dep, wid, src, dst))))))"

fun load_fifo_infos ::
  "json list \<Rightarrow> (string \<rightharpoonup> block_ref) \<Rightarrow> HardwareDesignGUI
     \<Rightarrow> py_error option \<times> HardwareDesignGUI" where
  "load_fifo_infos [] block_map s = (None, s)"
| "load_fifo_infos (conn_data' # rest) block_map s =
     (case read_names conn_data' ''src'' ''dst'' of
        Inl e \<Rightarrow> (Some e, s)
      | Inr (source_name, target_name) \<Rightarrow>
          (case (block_map source_name, block_map target_name) of
             (Some source, Some target) \<Rightarrow>
               (case read_saved_connection conn_data' ''qd'' of
                  Inl e \<Rightarrow> (Some e, s)
                | Inr (name, dep, wid, src, dst) \<Rightarrow>
                    (let (s1, conn) = FIFOConnection_init s source target name dep wid src dst
                     in load_fifo_infos rest block_map
                          (s1\<lparr>connections := connections s1 @ [conn]\<rparr>)))
           | _ \<Rightarrow> load_fifo_infos rest block_map s))"

text \<open>The old format: the connections of a block are nested in its record.\<close>

fun load_nested_connections ::
  "json list \<Rightarrow> block_ref \<Rightarrow> (string \<rightharpoonup> block_ref) \<Rightarrow> HardwareDesignGUI
     \<Rightarrow> py_error option \<times> HardwareDesignGUI" where
  "load_nested_connections [] source block_map s = (None, s)"
| "load_nested_connections (conn_data' # rest) source block_map s =
     (case ebind (getitem conn_data' ''target'') as_str of
        Inl e \<Rightarrow> (Some e, s)
      | Inr target_name \<Rightarrow>
          (case block_map target_name of
             Some target \<Rightarrow>
               (case read_saved_connection conn_data' ''depth'' of
                  Inl e \<Rightarrow> (Some e, s)
                | Inr (name, dep, wid, src, dst) \<Rightarrow>
                    (let (s1, conn) = FIFOConnection_init s source target name dep wid src dst
                     in load_nested_connections rest source block_map
                          (s1\<lparr>connections := connections s1 @ [conn]\<rparr>)))
           | None \<Rightarrow> load_nested_connections rest source block_map s))"

fun load_old_format ::
  "json list \<Rightarrow> (string \<rightharpoonup> block_ref) \<Rightarrow> HardwareDesignGUI
     \<Rightarrow> py_error option \<times> HardwareDesignGUI" where
  "load_old_format [] block_map s = (None, s)"
| "load_old_format (block_data' # rest) block_map s =
     (case ebind (getitem block_data' ''name'') as_str of
        Inl e \<Rightarrow> (Some e, s)
      | Inr name \<Rightarrow>
          (case block_map name of
             None \<Rightarrow> (Some KeyError, s)
           | Some source \<Rightarrow>
               (case ebind (get_default block_data' ''connections'' (JArr [])) iterate of
                  Inl e \<Rightarrow> (Some e, s)
                | Inr nested \<Rightarrow>
                    (case load_nested_connections nested source block_map s of
                       (Some e, s1) \<Rightarrow> (Some e, s1)
                     | (None, s1) \<Rightarrow> load_old_format rest block_map s1))))"

text \<open>
  \<^verbatim>\<open>load_json\<close>, from the parsed file on; \<open>answer\<close> is the user's reply when
  \<^verbatim>\<open>new_design\<close> asks whether to clear the current design. The clearing comes before
  the test for the \<^verbatim>\<open>"blocks"\<close> key.
\<close>

definition load_json :: "HardwareDesignGUI \<Rightarrow> bool \<Rightarrow> json \<Rightarrow> HardwareDesignGUI \<times> outcome" where
  "load_json s answer design_data =
     (let s1 = new_design s answer
      in case contains design_data ''blocks'' of
           Inl e \<Rightarrow> (s1, Failed)
         | Inr False \<Rightarrow> (s1, Failed)
         | Inr True \<Rightarrow>
             (case ebind (getitem design_data ''blocks'') iterate of
                Inl e \<Rightarrow> (s1, Failed)
              | Inr block_records \<Rightarrow>
                  (case load_blocks block_records s1 Map.empty of
                     (Some e, s2, block_map) \<Rightarrow> (s2, Failed)
                   | (None, s2, block_map) \<Rightarrow>
                       (case contains design_data ''fifo_infos'' of
                          Inl e \<Rightarrow> (s2, Failed)
                        | Inr True \<Rightarrow>
                            (case ebind (getitem design_data ''fifo_infos'') iterate of
                               Inl e \<Rightarrow> (s2, Failed)
                             | Inr fifo_infos \<Rightarrow>
                                 (case load_fifo_infos fifo_infos block_map s2 of
                                    (Some e, s3) \<Rightarrow> (s3, Failed)
                                  | (None, s3) \<Rightarrow> (s3, Success)))
                        | Inr False \<Rightarrow>
                            (case load_old_format block_records block_map s2 of
                               (Some e, s3) \<Rightarrow> (s3, Failed)
                             | (None, s3) \<Rightarrow> (s3, Success))))))"

section \<open>Importing connections\<close>

text \<open>
  \<^verbatim>\<open>block_map = {block.name: block for block in self.blocks}\<close>: of two blocks with the
  same name the later one stays in the dictionary.
\<close>

definition block_map_of :: "HardwareDesignGUI \<Rightarrow> (string \<rightharpoonup> block_ref)" where
  "block_map_of s = fold (\<lambda>block m. m(b_name (block_store s block) \<mapsto> block)) (blocks s) Map.empty"

text \<open>
  One record of \<^verbatim>\<open>import_connections_json\<close>, in the current format
  (\<open>fifo_format\<close>) or in the old one: the two block names are required, the other
  members have defaults.
\<close>

definition read_import_record ::
  "json \<Rightarrow> bool
     \<Rightarrow> py_error + (string \<times> string \<times> string \<times> int \<times> int \<times> int option \<times> int option)" where
  "read_import_record conn_data' fifo_format =
     (if fifo_format then
        ebind (ebind (getitem conn_data' ''src'') as_str) (\<lambda>source_name.
        ebind (ebind (getitem conn_data' ''dst'') as_str) (\<lambda>dest_name.
        ebind (ebind (get_default conn_data' ''name'' (JStr ''FIFO'')) as_str) (\<lambda>fifo_name.
        ebind (ebind (get_default conn_data' ''qd'' (JInt 16)) as_int) (\<lambda>queue_depth.
        ebind (ebind (get_default conn_data' ''width'' (JInt 32)) as_int) (\<lambda>data_width.
        ebind (ebind (get_default conn_data' ''src_ch_num'' (JInt 0)) as_optional_int) (\<lambda>source_channel.
        ebind (ebind (get_default conn_data' ''dst_ch_num'' (JInt 0)) as_optional_int) (\<lambda>dest_channel.
        Inr (source_name, dest_name, fifo_name, queue_depth, data_width,
             source_channel, dest_channel))))))))
      else
        ebind (ebind (getitem conn_data' ''source_block'') as_str) (\<lambda>source_name.
        ebind (ebind (getitem conn_data' ''destination_block'') as_str) (\<lambda>dest_name.
        ebind (ebind (get_default conn_data' ''fifo_name'' (JStr ''FIFO'')) as_str) (\<lambda>fifo_name.
        ebind (ebind (get_default conn_data' ''queue_depth'' (JInt 16)) as_int) (\<lambda>queue_depth.
        ebind (ebind (get_default conn_data' ''data_width'' (JInt 32)) as_int) (\<lambda>data_width.
        ebind (ebind (get_default conn_data' ''source_channel'' (JInt 0)) as_optional_int) (\<lambda>source_channel.
        ebind (ebind (get_default conn_data' ''destination_channel'' (JInt 0)) as_optional_int) (\<lambda>dest_channel.
        Inr (source_name, dest_name, fifo_name, queue_depth, data_width,
             source_channel, dest_channel)))))))))"

text \<open>
  The loop over the records: each one is imported or skipped on its own (an exception
  inside the loop's \<^verbatim>\<open>try\<close> skips the record). The state carries the two counters; the
  messages collected for the user are left out.
\<close>

fun import_records ::
  "json list \<Rightarrow> bool \<Rightarrow> (string \<rightharpoonup> block_ref) \<Rightarrow> HardwareDesignGUI \<times> nat \<times> nat
     \<Rightarrow> HardwareDesignGUI \<times> nat \<times> nat" where
  "import_records [] fifo_format block_map (s, imported_count, skipped_count) =
     (s, imported_count, skipped_count)"
| "import_records (conn_data' # rest) fifo_format block_map (s, imported_count, skipped_count) =
     (case read_import_record conn_data' fifo_format of
        Inl e \<Rightarrow> import_records rest fifo_format block_map (s, imported_count, Suc skipped_count)
      | Inr (source_name, dest_name, fifo_name, queue_depth, data_width,
             source_channel, dest_channel) \<Rightarrow>
          (case block_map source_name of
             None \<Rightarrow> import_records rest fifo_format block_map (s, imported_count, Suc skipped_count)
           | Some source \<Rightarrow>
               (case block_map dest_name of
                  None \<Rightarrow>
                    import_records rest fifo_format block_map (s, imported_count, Suc skipped_count)
                | Some dest \<Rightarrow>
                    if \<not> can_add_connection s source then
                      import_records rest fifo_format block_map (s, imported_count, Suc skipped_count)
                    else if \<not> can_add_connection s dest then
                      import_records rest fifo_format block_map (s, imported_count, Suc skipped_count)
                    else
                      (let (s1, conn) = FIFOConnection_init s source dest fifo_name queue_depth
                                          data_width source_channel dest_channel
                       in import_records rest fifo_format block_map
                            (s1\<lparr>connections := connections s1 @ [conn]\<rparr>,
                             Suc imported_count, skipped_count)))))"

datatype import_report = Import_failed | Import_done nat nat

definition import_connections_json :: "HardwareDesignGUI \<Rightarrow> json \<Rightarrow> HardwareDesignGUI \<times> import_report" where
  "import_connections_json s data =
     (case contains data ''fifo_infos'' of
        Inl e \<Rightarrow> (s, Import_failed)
      | Inr True \<Rightarrow>
          (case ebind (getitem data ''fifo_infos'') iterate of
             Inl e \<Rightarrow> (s, Import_failed)
           | Inr connections_data \<Rightarrow>
               (case import_records connections_data True (block_map_of s) (s, 0, 0) of
                  (s1, imported_count, skipped_count) \<Rightarrow>
                    (s1, Import_done imported_count skipped_count)))
      | Inr False \<Rightarrow>
          (case contains data ''connections'' of
             Inl e \<Rightarrow> (s, Import_failed)
           | Inr True \<Rightarrow>
               (case ebind (getitem data ''connections'') iterate of
                  Inl e \<Rightarrow> (s, Import_failed)
                | Inr connections_data \<Rightarrow>
                    (case import_records connections_data False (block_map_of s) (s, 0, 0) of
                       (s1, imported_count, skipped_count) \<Rightarrow>
                         (s1, Import_done imported_count skipped_count)))
           | Inr False \<Rightarrow> (s, Import_failed)))"

section \<open>Importing the FIFO format\<close>

text \<open>The first loop: the names under \<^verbatim>\<open>"src"\<close> and \<^verbatim>\<open>"dst"\<close> of every record.\<close>

fun collect_block_names :: "json list \<Rightarrow> py_error + string list" where
  "collect_block_names [] = Inr []"
| "collect_block_names (fifo_info # rest) =
     ebind (read_names fifo_info ''src'' ''dst'') (\<lambda>(src_name, dst_name).
     ebind (collect_block_names rest) (\<lambda>names. Inr (src_name # dst_name # names)))"

text \<open>
  \<^verbatim>\<open>math.ceil(math.sqrt(n))\<close>, as the least \<open>k\<close> with \<open>n \<le> k\<^sup>2\<close>, searched upward
  from \<open>k\<close>.
\<close>

function ceil_sqrt_from :: "nat \<Rightarrow> nat \<Rightarrow> nat" where
  "ceil_sqrt_from n k = (if n \<le> k * k then k else ceil_sqrt_from n (Suc k))"
  by pat_completeness auto

lemma ceil_sqrt_from_decreases: "\<not> n \<le> k * k \<Longrightarrow> n - Suc k < n - k"
  by (cases "k < n") (auto simp: not_le intro: le_less_trans [OF le_square])

termination ceil_sqrt_from
  by (relation "measure (\<lambda>(n, k). n - k)") (auto simp: ceil_sqrt_from_decreases)

declare ceil_sqrt_from.simps [simp del]

text \<open>
  The loop \<^verbatim>\<open>for i, block_name in enumerate(sorted(block_names))\<close>: the blocks are
  placed on a grid with \<open>cols\<close> columns and numbered from 1.
\<close>

fun create_grid_blocks ::
  "string list \<Rightarrow> nat \<Rightarrow> nat \<Rightarrow> HardwareDesignGUI \<Rightarrow> (string \<rightharpoonup> block_ref)
     \<Rightarrow> HardwareDesignGUI \<times> (string \<rightharpoonup> block_ref)" where
  "create_grid_blocks [] cols i s block_map = (s, block_map)"
| "create_grid_blocks (block_name # rest) cols i s block_map =
     (let x = 50 + of_nat (i mod cols) * 200;
          y = 50 + of_nat (i div cols) * 150;
          (s1, block) = Block_init s x y 150 80 block_name (Some (int i + 1));
          s2 = s1\<lparr>blocks := blocks s1 @ [block]\<rparr>
      in create_grid_blocks rest cols (Suc i) s2 (block_map(block_name \<mapsto> block)))"

text \<open>
  The arguments of \<^verbatim>\<open>FIFOConnection(...)\<close> in \<^verbatim>\<open>import_fifo_format\<close>: all five are
  required members.
\<close>

definition read_fifo_info ::
  "json \<Rightarrow> py_error + (string \<times> int \<times> int \<times> int option \<times> int option)" where
  "read_fifo_info fifo_info =
     ebind (ebind (getitem fifo_info ''name'') as_str) (\<lambda>name.
     ebind (ebind (getitem fifo_info ''qd'') as_int) (\<lambda>dep.
     ebind (ebind (getitem fifo_info ''width'') as_int) (\<lambda>wid.
     ebind (ebind (getitem fifo_info ''src_ch_num'') as_optional_int) (\<lambda>src.
     ebind (ebind (getitem fifo_info ''dst_ch_num'') as_optional_int) (\<lambda>dst.
     Inr (name, dep, wid, src, dst))))))"

text \<open>
  The second loop. A record whose source or target block is full is skipped with a
  warning that quotes the record's name.
\<close>

fun import_fifo_infos ::
  "json list \<Rightarrow> (string \<rightharpoonup> block_ref) \<Rightarrow> HardwareDesignGUI
     \<Rightarrow> py_error option \<times> HardwareDesignGUI" where
  "import_fifo_infos [] block_map s = (None, s)"
| "import_fifo_infos (fifo_info # rest) block_map s =
     (case read_names fifo_info ''src'' ''dst'' of
        Inl e \<Rightarrow> (Some e, s)
      | Inr (src_name, dst_name) \<Rightarrow>
          (case (block_map src_name, block_map dst_name) of
             (Some source, Some target) \<Rightarrow>
               if \<not> (can_add_connection s source \<and> can_add_connection s target) then
                 (case getitem fifo_info ''name'' of
                    Inl e \<Rightarrow> (Some e, s)
                  | Inr name \<Rightarrow> import_fifo_infos rest block_map s)
               else
                 (case read_fifo_info fifo_info of
                    Inl e \<Rightarrow> (Some e, s)
                  | Inr (name, dep, wid, src, dst) \<Rightarrow>
                      (let (s1, conn) = FIFOConnection_init s source target name dep wid src dst
                       in import_fifo_infos rest block_map
                            (s1\<lparr>connections := connections s1 @ [conn]\<rparr>)))
           | _ \<Rightarrow> import_fifo_infos rest block_map s))"

text \<open>
  \<^verbatim>\<open>import_fifo_format\<close>, from the parsed file on; \<open>answer\<close> is the user's reply when
  \<^verbatim>\<open>new_design\<close> asks whether to clear the current design.
\<close>

definition import_fifo_format ::
  "HardwareDesignGUI \<Rightarrow> bool \<Rightarrow> json \<Rightarrow> HardwareDesignGUI \<times> outcome" where
  "import_fifo_format s answer data =
     (case contains data ''fifo_infos'' of
        Inl e \<Rightarrow> (s, Failed)
      | Inr False \<Rightarrow> (s, Failed)
      | Inr True \<Rightarrow>
          (let s1 = new_design s answer
           in case ebind (getitem data ''fifo_infos'') iterate of
                Inl e \<Rightarrow> (s1, Failed)
              | Inr fifo_infos \<Rightarrow>
                  (case collect_block_names fifo_infos of
                     Inl e \<Rightarrow> (s1, Failed)
                   | Inr names \<Rightarrow>
                       (let block_names = sort (remdups names);
                            cols = ceil_sqrt_from (length block_names) 0;
                            (s2, block_map) = create_grid_blocks block_names cols 0 s1 Map.empty
                        in case import_fifo_infos fifo_infos block_map s2 of
                             (Some e, s3) \<Rightarrow> (s3, Failed)
                           | (None, s3) \<Rightarrow> (s3, Success)))))"

section \<open>What is compared\<close>




definition blocks_allocated :: "HardwareDesignGUI \<Rightarrow> bool" where
  "blocks_allocated t \<longleftrightarrow> (\<forall>r \<in> set (blocks t). r < next_block t)"

definition conns_allocated :: "HardwareDesignGUI \<Rightarrow> bool" where
  "conns_allocated t \<longleftrightarrow> (\<forall>c \<in> set (connections t). c < next_conn t)"

section \<open>Channel assignment in list order\<close>

text \<open>The two blocks and the two channels of a connection.\<close>

definition endpoints :: "HardwareDesignGUI \<Rightarrow> conn_ref \<Rightarrow> block_ref \<times> block_ref" where
  "endpoints s c = (source_block (conn_store s c), target_block (conn_store s c))"

definition channels :: "HardwareDesignGUI \<Rightarrow> conn_ref \<Rightarrow> int \<times> int" where
  "channels s c = (src_ch_num (conn_store s c), dst_ch_num (conn_store s c))"

text \<open>
  The channel assignment in the specification's words: going through the connections in
  list order, each one gets as source channel the lowest channel not used by
  earlier-listed connections with the same source block, and as target channel the lowest
  channel not used by earlier-listed connections with the same target block. The
  connections are given by their end blocks; \<open>earlier\<close> holds the connections already
  numbered. The lowest free channel is computed by \<open>first_free\<close>, which C5 shows to be
  the least non-negative integer not in the list.
\<close>

definition srcs_of :: "(block_ref \<times> block_ref \<times> int \<times> int) list \<Rightarrow> block_ref \<Rightarrow> int list" where
  "srcs_of earlier x = map (\<lambda>(a, b, sc, dc). sc) (filter (\<lambda>(a, b, sc, dc). a = x) earlier)"

definition dsts_of :: "(block_ref \<times> block_ref \<times> int \<times> int) list \<Rightarrow> block_ref \<Rightarrow> int list" where
  "dsts_of earlier x = map (\<lambda>(a, b, sc, dc). dc) (filter (\<lambda>(a, b, sc, dc). b = x) earlier)"

fun spec_assign_channels ::
  "(block_ref \<times> block_ref \<times> int \<times> int) list \<Rightarrow> (block_ref \<times> block_ref) list \<Rightarrow> (int \<times> int) list" where
  "spec_assign_channels earlier [] = []"
| "spec_assign_channels earlier ((a, b) # rest) =
     (let src = first_free (srcs_of earlier a) 0;
          dst = first_free (dsts_of earlier b) 0
      in (src, dst) # spec_assign_channels (earlier @ [(a, b, src, dst)]) rest)"

text \<open>
  Creating all connections from scratch: the diagram with no connection attached to any
  block and none in the window's list, and then one \<^verbatim>\<open>FIFOConnection(...)\<close> with
  automatic channels per pair of end blocks, appended to the window's list as every
  caller of the constructor does.
\<close>

definition without_connections :: "HardwareDesignGUI \<Rightarrow> HardwareDesignGUI" where
  "without_connections s =
     s\<lparr>block_store := (\<lambda>x. (block_store s x)\<lparr>b_connections := []\<rparr>), connections := []\<rparr>"

fun create_in_order :: "(block_ref \<times> block_ref) list \<Rightarrow> HardwareDesignGUI \<Rightarrow> HardwareDesignGUI" where
  "create_in_order [] s = s"
| "create_in_order ((a, b) # rest) s =
     (let (s1, conn) = FIFOConnection_init s a b ''FIFO'' 16 32 None None
      in create_in_order rest (s1\<lparr>connections := connections s1 @ [conn]\<rparr>))"

text \<open>
  The lists of the blocks agree with the list of the window: the connections of the
  window are distinct and join blocks of the window, and the list of a block of the
  window holds each connection of the window once for each end it has at the block and
  nothing else. The operations keep this when they are applied to blocks and
  connections of the window (\<open>built_lists_consistent\<close>).
\<close>

definition lists_consistent :: "HardwareDesignGUI \<Rightarrow> bool" where
  "lists_consistent s \<longleftrightarrow>
     distinct (connections s) \<and>
     (\<forall>c \<in> set (connections s).
        source_block (conn_store s c) \<in> set (blocks s) \<and>
        target_block (conn_store s c) \<in> set (blocks s)) \<and>
     (\<forall>x \<in> set (blocks s). \<forall>c.
        count_list (b_connections (block_store s x)) c =
          (if c \<in> set (connections s)
           then (if source_block (conn_store s c) = x then 1 else 0) +
                (if target_block (conn_store s c) = x then 1 else 0)
           else 0))"

text \<open>
  Invariants of the loops: the channels that the blocks of \<open>B\<close> have in use are those of
  the connections numbered so far; the lists of the blocks of \<open>B\<close> hold exactly the
  connections still to be detached.
\<close>

definition bookkeeping_matches ::
  "block_ref set \<Rightarrow> HardwareDesignGUI \<Rightarrow> (block_ref \<times> block_ref \<times> int \<times> int) list \<Rightarrow> bool" where
  "bookkeeping_matches B t earlier \<longleftrightarrow>
     (\<forall>x \<in> B. set (src_used_channels t x) = set (srcs_of earlier x) \<and>
              set (dst_used_channels t x) = set (dsts_of earlier x))"

definition counts_match :: "block_ref set \<Rightarrow> HardwareDesignGUI \<Rightarrow> conn_ref list \<Rightarrow> bool" where
  "counts_match B t rest \<longleftrightarrow>
     (\<forall>x \<in> B. \<forall>c.
        count_list (b_connections (block_store t x)) c =
          (if c \<in> set rest
           then (if source_block (conn_store t c) = x then 1 else 0) +
                (if target_block (conn_store t c) = x then 1 else 0)
           else 0))"

text \<open>
  The invariant of the claims: for every block the source channels of the connections
  leaving it are pairwise distinct, and so are the target channels of the connections
  entering it.
\<close>

definition channels_unique :: "HardwareDesignGUI \<Rightarrow> bool" where
  "channels_unique s \<longleftrightarrow>
     (\<forall>B. distinct (map (\<lambda>c. src_ch_num (conn_store s c))
                     (filter (\<lambda>c. source_block (conn_store s c) = B) (connections s))) \<and>
          distinct (map (\<lambda>c. dst_ch_num (conn_store s c))
                     (filter (\<lambda>c. target_block (conn_store s c) = B) (connections s))))"

text \<open>The connections \<open>es\<close> together with the channels \<open>chs\<close> given to them.\<close>

definition numbered ::
  "(block_ref \<times> block_ref) list \<Rightarrow> (int \<times> int) list \<Rightarrow> (block_ref \<times> block_ref \<times> int \<times> int) list" where
  "numbered es chs = map (\<lambda>((a, b), (sc, dc)). (a, b, sc, dc)) (zip es chs)"

section \<open>What a FIFO file holds\<close>






section \<open>Diagrams built by the operations\<close>

text \<open>
  A diagram is well-formed when the lists of its blocks agree with the list of the
  window and the references in the two lists of the window are references of objects
  that have been created.
\<close>

definition well_formed :: "HardwareDesignGUI \<Rightarrow> bool" where
  "well_formed s \<longleftrightarrow> lists_consistent s \<and> blocks_allocated s \<and> conns_allocated s"

text \<open>
  The diagrams that the operations build from the empty window, when a connection is
  drawn between two blocks of the window and what is deleted is a connection or a block
  of the window. The window can still hold a block that has been deleted: the source
  block chosen in connect mode stays in \<^verbatim>\<open>connect_start_block\<close> when the block is
  deleted through the context menu, and the next click draws a connection from it.
  Such a connection is outside \<open>built\<close>. Moving, resizing, renaming and renumbering a
  block write none of the attributes that well-formedness reads; they are left out.
\<close>

inductive built :: "HardwareDesignGUI \<Rightarrow> bool" where
  built_init: "built init_gui"
| built_add_block: "built s \<Longrightarrow> built (add_block s name)"
| built_create_connection:
    "built s \<Longrightarrow> source \<in> set (blocks s) \<Longrightarrow> target \<in> set (blocks s) \<Longrightarrow>
     built (fst (create_connection_between_blocks s source target))"
| built_delete_connection:
    "built s \<Longrightarrow> connection \<in> set (connections s) \<Longrightarrow>
     built (delete_connection s connection confirm answer)"
| built_delete_block:
    "built s \<Longrightarrow> block \<in> set (blocks s) \<Longrightarrow> built (delete_block s block answer)"
| built_edit_connection:
    "built s \<Longrightarrow>
     built (edit_connection_apply_changes s connection new_name new_depth new_width
              new_src_ch new_dst_ch)"
| built_reassign_all_channels: "built s \<Longrightarrow> built (reassign_all_channels s answer)"
| built_new_design: "built s \<Longrightarrow> built (new_design s answer)"
| built_load_json: "built s \<Longrightarrow> built (fst (load_json s answer design_data))"
| built_import_connections_json: "built s \<Longrightarrow> built (fst (import_connections_json s data))"
| built_import_fifo_format: "built s \<Longrightarrow> built (fst (import_fifo_format s answer data))"

section \<open>Example diagrams\<close>

text \<open>
  Two blocks \<open>A\<close> (reference 0) and \<open>B\<close> (reference 1) added through the name dialog,
  then three connections from \<open>A\<close> to \<open>B\<close> drawn by the user; in \<open>ex_gap\<close> the third
  connection's source channel has been edited from 2 to 3, which leaves \<open>A\<close> with the
  outgoing channels 0, 1 and 3.
\<close>

definition ex_two_blocks :: HardwareDesignGUI where
  "ex_two_blocks = add_block (add_block init_gui ''A'') ''B''"

definition ex_three :: HardwareDesignGUI where
  "ex_three =
     fst (create_connection_between_blocks
       (fst (create_connection_between_blocks
         (fst (create_connection_between_blocks ex_two_blocks 0 1)) 0 1)) 0 1)"

definition ex_gap :: HardwareDesignGUI where
  "ex_gap = edit_connection_apply_changes ex_three 2 ''FIFO_3'' 16 32 3 2"

text \<open>
  In \<open>ex_recreated\<close> the user has deleted the second of the three connections
  (\<open>FIFO_2\<close>, confirming the dialog) and then drawn a connection from \<open>A\<close> to \<open>B\<close>
  again.
\<close>

definition ex_recreated :: HardwareDesignGUI where
  "ex_recreated =
     fst (create_connection_between_blocks (delete_connection ex_three 1 True True) 0 1)"






text \<open>
  Files. \<open>ex_design_16\<close> is a design with the blocks \<open>A\<close> and \<open>B\<close> and sixteen
  connections from \<open>A\<close> to \<open>B\<close>; \<open>ex_fifo_16\<close> holds the same sixteen connections in
  the FIFO format; \<open>ex_fifo_one\<close> holds one connection from \<open>Y\<close> to \<open>X\<close>;
  \<open>ex_no_keys\<close> parses but has none of the keys \<^verbatim>\<open>"blocks"\<close>, \<^verbatim>\<open>"fifo_infos"\<close>,
  \<^verbatim>\<open>"connections"\<close>.
\<close>

definition ex_fifo_record :: "string \<Rightarrow> string \<Rightarrow> string \<Rightarrow> json" where
  "ex_fifo_record name src dst =
     JObj [(''name'', JStr name), (''src'', JStr src), (''src_ch_num'', JInt 0),
           (''dst'', JStr dst), (''dst_ch_num'', JInt 0), (''qd'', JInt 16), (''width'', JInt 32)]"

definition ex_block_record :: "string \<Rightarrow> rat \<Rightarrow> json" where
  "ex_block_record name x =
     JObj [(''x'', JNum x), (''y'', JInt 100), (''width'', JInt 150), (''height'', JInt 80),
           (''name'', JStr name), (''number'', JNull)]"

definition ex_design_16 :: json where
  "ex_design_16 =
     JObj [(''blocks'', JArr [ex_block_record ''A'' 100, ex_block_record ''B'' 300]),
           (''fifo_infos'', JArr (replicate 16 (ex_fifo_record ''F'' ''A'' ''B'')))]"

definition ex_fifo_16 :: json where
  "ex_fifo_16 = JObj [(''fifo_infos'', JArr (replicate 16 (ex_fifo_record ''F'' ''A'' ''B'')))]"

definition ex_fifo_one :: json where
  "ex_fifo_one = JObj [(''fifo_infos'', JArr [ex_fifo_record ''F'' ''Y'' ''X''])]"

definition ex_no_keys :: json where
  "ex_no_keys = JObj [(''metadata'', JObj [(''version'', JStr ''1.0'')])]"

text \<open>
  In \<open>ex_clash\<close> the third connection of \<open>ex_three\<close> has been edited to the channels
  0 and 0, which the first connection has too.
\<close>

definition ex_clash :: HardwareDesignGUI where
  "ex_clash = edit_connection_apply_changes ex_three 2 ''FIFO_3'' 16 32 0 0"

section \<open>What drawing leaves alone\<close>

text \<open>
  \<^verbatim>\<open>draw\<close> writes \<^verbatim>\<open>curve_points\<close> only, so every other observation of the
  diagram can be read through it.
\<close>

lemma draw_frame [simp]:
  "block_store (draw s c) = block_store s"
  "conn_store (draw s c) = conn_store s"
  "blocks (draw s c) = blocks s"
  "connections (draw s c) = connections s"
  "next_block (draw s c) = next_block s"
  "next_conn (draw s c) = next_conn s"
  by (simp_all add: draw_def)

lemma joins_draw [simp]: "joins (draw s c) = joins s"
  by (intro ext) (simp add: joins_def)

lemma fold_redraw_frame:
  "block_store (fold (\<lambda>c s'. if joins s' a b c then draw s' c else s') cs s) = block_store s \<and>
   conn_store (fold (\<lambda>c s'. if joins s' a b c then draw s' c else s') cs s) = conn_store s \<and>
   blocks (fold (\<lambda>c s'. if joins s' a b c then draw s' c else s') cs s) = blocks s \<and>
   connections (fold (\<lambda>c s'. if joins s' a b c then draw s' c else s') cs s) = connections s \<and>
   next_block (fold (\<lambda>c s'. if joins s' a b c then draw s' c else s') cs s) = next_block s \<and>
   next_conn (fold (\<lambda>c s'. if joins s' a b c then draw s' c else s') cs s) = next_conn s"
  by (induction cs arbitrary: s) auto

lemma redraw_between_frame [simp]:
  "block_store (redraw_between s a b) = block_store s"
  "conn_store (redraw_between s a b) = conn_store s"
  "blocks (redraw_between s a b) = blocks s"
  "connections (redraw_between s a b) = connections s"
  "next_block (redraw_between s a b) = next_block s"
  "next_conn (redraw_between s a b) = next_conn s"
  by (simp_all add: redraw_between_def fold_redraw_frame)

text \<open>
  The two constructors, seen through the attributes of the resulting diagram. A new
  object takes the next free reference; nothing else in the stores changes, but the
  connection lists of the two end blocks.
\<close>

lemma FIFOConnection_init_frame [simp]:
  "snd (FIFOConnection_init s a b name dep wid src dst) = next_conn s"
  "blocks (fst (FIFOConnection_init s a b name dep wid src dst)) = blocks s"
  "connections (fst (FIFOConnection_init s a b name dep wid src dst)) = connections s"
  "next_block (fst (FIFOConnection_init s a b name dep wid src dst)) = next_block s"
  "next_conn (fst (FIFOConnection_init s a b name dep wid src dst)) = Suc (next_conn s)"
  by (simp_all add: FIFOConnection_init_def Let_def append_connection_def)

lemma FIFOConnection_init_blocks [simp]:
  "b_connections (block_store (fst (FIFOConnection_init s a b name dep wid src dst)) x) =
     b_connections (block_store s x) @ (if x = a then [next_conn s] else []) @
       (if x = b then [next_conn s] else [])"
  "b_name (block_store (fst (FIFOConnection_init s a b name dep wid src dst)) x) = b_name (block_store s x)"
  "b_x (block_store (fst (FIFOConnection_init s a b name dep wid src dst)) x) = b_x (block_store s x)"
  "b_y (block_store (fst (FIFOConnection_init s a b name dep wid src dst)) x) = b_y (block_store s x)"
  "b_width (block_store (fst (FIFOConnection_init s a b name dep wid src dst)) x) = b_width (block_store s x)"
  "b_height (block_store (fst (FIFOConnection_init s a b name dep wid src dst)) x) = b_height (block_store s x)"
  "b_number (block_store (fst (FIFOConnection_init s a b name dep wid src dst)) x) = b_number (block_store s x)"
  by (simp_all add: FIFOConnection_init_def Let_def append_connection_def)

lemma FIFOConnection_init_conns [simp]:
  "source_block (conn_store (fst (FIFOConnection_init s a b name dep wid src dst)) c) =
     (if c = next_conn s then a else source_block (conn_store s c))"
  "target_block (conn_store (fst (FIFOConnection_init s a b name dep wid src dst)) c) =
     (if c = next_conn s then b else target_block (conn_store s c))"
  "c_name (conn_store (fst (FIFOConnection_init s a b name dep wid src dst)) c) =
     (if c = next_conn s then name else c_name (conn_store s c))"
  "depth (conn_store (fst (FIFOConnection_init s a b name dep wid src dst)) c) =
     (if c = next_conn s then dep else depth (conn_store s c))"
  "c_width (conn_store (fst (FIFOConnection_init s a b name dep wid src dst)) c) =
     (if c = next_conn s then wid else c_width (conn_store s c))"
  "src_ch_num (conn_store (fst (FIFOConnection_init s a b name dep wid src dst)) c) =
     (if c = next_conn s
      then (case src of None \<Rightarrow> get_next_available_src_channel s a | Some n \<Rightarrow> n)
      else src_ch_num (conn_store s c))"
  "dst_ch_num (conn_store (fst (FIFOConnection_init s a b name dep wid src dst)) c) =
     (if c = next_conn s
      then (case dst of None \<Rightarrow> get_next_available_dst_channel s b | Some n \<Rightarrow> n)
      else dst_ch_num (conn_store s c))"
  by (simp_all add: FIFOConnection_init_def Let_def append_connection_def)

lemma Block_init_frame [simp]:
  "snd (Block_init s x y w h name num) = next_block s"
  "blocks (fst (Block_init s x y w h name num)) = blocks s"
  "connections (fst (Block_init s x y w h name num)) = connections s"
  "conn_store (fst (Block_init s x y w h name num)) = conn_store s"
  "next_conn (fst (Block_init s x y w h name num)) = next_conn s"
  "next_block (fst (Block_init s x y w h name num)) = Suc (next_block s)"
  "block_store (fst (Block_init s x y w h name num)) r =
     (if r = next_block s
      then \<lparr>b_x = x, b_y = y, b_width = w, b_height = h, b_name = name, b_number = num,
            b_connections = []\<rparr>
      else block_store s r)"
  by (simp_all add: Block_init_def Let_def)

text \<open>The equations that run the operations on a concrete diagram, drawing apart.\<close>

lemmas run_defs =
  add_block_def init_gui_def Block_init_def create_connection_between_blocks_def
  can_add_connection_def joins_def FIFOConnection_init_def
  get_next_available_src_channel_def get_next_available_dst_channel_def
  src_used_channels_def dst_used_channels_def append_connection_def remove_connection_def
  edit_connection_apply_changes_def delete_connection_def first_free.simps Let_def

lemmas ex_defs = ex_gap_def ex_three_def ex_two_blocks_def ex_recreated_def ex_clash_def

section \<open>Lowest free channel\<close>

lemma first_free_ge: "n \<le> first_free used n"
proof (induction used n rule: first_free.induct)
  case (1 used n)
  show ?case
  proof (cases "n \<in> set used")
    case True
    with 1 have "n + 1 \<le> first_free used (n + 1)" by simp
    with True show ?thesis by (subst first_free.simps) simp
  next
    case False
    then show ?thesis by (subst first_free.simps) simp
  qed
qed

lemma first_free_unused: "first_free used n \<notin> set used"
proof (induction used n rule: first_free.induct)
  case (1 used n)
  show ?case
  proof (cases "n \<in> set used")
    case True
    with 1 show ?thesis by (subst first_free.simps) simp
  next
    case False
    then show ?thesis by (subst first_free.simps) simp
  qed
qed

lemma first_free_below_used: "n \<le> m \<Longrightarrow> m < first_free used n \<Longrightarrow> m \<in> set used"
proof (induction used n rule: first_free.induct)
  case (1 used n)
  show ?case
  proof (cases "n \<in> set used")
    case True
    then have eq: "first_free used n = first_free used (n + 1)"
      by (subst first_free.simps) simp
    show ?thesis
    proof (cases "m = n")
      case True
      with \<open>n \<in> set used\<close> show ?thesis by simp
    next
      case False
      with "1.prems" have "n + 1 \<le> m" by simp
      moreover from "1.prems" eq have "m < first_free used (n + 1)" by simp
      ultimately show ?thesis using "1.IH" True by simp
    qed
  next
    case False
    then have "first_free used n = n" by (subst first_free.simps) simp
    with "1.prems" show ?thesis by simp
  qed
qed

lemma first_free_cong_set: "set used = set used' \<Longrightarrow> first_free used n = first_free used' n"
proof (induction used n rule: first_free.induct)
  case (1 used n)
  show ?case
  proof (cases "n \<in> set used")
    case True
    with 1 show ?thesis
      by (subst first_free.simps, subst (2) first_free.simps) simp
  next
    case False
    with 1 show ?thesis
      by (subst first_free.simps, subst (2) first_free.simps) simp
  qed
qed

section \<open>Position of a connection among its peers\<close>






section \<open>Running the loaders\<close>

lemmas file_defs = ex_design_16_def ex_fifo_16_def ex_fifo_one_def ex_no_keys_def
  ex_fifo_record_def ex_block_record_def

text \<open>
  The equations that run the loaders on a concrete file: the constructors are read
  through their attributes, not unfolded.
\<close>

lemmas step_defs = init_gui_def can_add_connection_def joins_def
  get_next_available_src_channel_def get_next_available_dst_channel_def
  src_used_channels_def dst_used_channels_def first_free.simps Let_def split_def

lemmas load_defs = load_json_def new_design_def read_block_def read_names_def
  read_saved_connection_def import_fifo_format_def read_fifo_info_def
  import_connections_json_def read_import_record_def

section \<open>Loading what was saved\<close>







section \<open>Reassigning all channels\<close>

lemma reattach_frame [simp]:
  "blocks (reattach t c) = blocks t"
  "connections (reattach t c) = connections t"
  "next_conn (reattach t c) = next_conn t"
  "next_block (reattach t c) = next_block t"
  by (simp_all add: reattach_def Let_def append_connection_def)

lemma reattach_conn_store:
  "conn_store (reattach t c) =
     (conn_store t)(c := (conn_store t c)
        \<lparr>src_ch_num := get_next_available_src_channel t (source_block (conn_store t c)),
         dst_ch_num := get_next_available_dst_channel
            (t\<lparr>conn_store := (conn_store t)(c := (conn_store t c)
                 \<lparr>src_ch_num := get_next_available_src_channel t (source_block (conn_store t c))\<rparr>)\<rparr>)
            (target_block (conn_store t c))\<rparr>)"
  by (simp add: reattach_def Let_def append_connection_def)

lemma reattach_lists:
  "b_connections (block_store (reattach t c) x) =
     b_connections (block_store t x) @
       (if x = source_block (conn_store t c) then [c] else []) @
       (if x = target_block (conn_store t c) then [c] else [])"
  by (simp add: reattach_def Let_def append_connection_def)

lemma map_filter_update_other:
  "c \<notin> set xs \<Longrightarrow>
   map (\<lambda>conn. f ((st(c := v)) conn)) (filter (\<lambda>conn. g ((st(c := v)) conn)) xs) =
   map (\<lambda>conn. f (st conn)) (filter (\<lambda>conn. g (st conn)) xs)"
  by (induction xs) auto

lemma used_channels_update_other:
  assumes "c \<notin> set (b_connections (block_store t x))"
  shows "src_used_channels (t\<lparr>conn_store := (conn_store t)(c := v)\<rparr>) x = src_used_channels t x"
    and "dst_used_channels (t\<lparr>conn_store := (conn_store t)(c := v)\<rparr>) x = dst_used_channels t x"
  using assms
    map_filter_update_other [of c "b_connections (block_store t x)" src_ch_num "conn_store t" v
      "\<lambda>r. source_block r = x"]
    map_filter_update_other [of c "b_connections (block_store t x)" dst_ch_num "conn_store t" v
      "\<lambda>r. target_block r = x"]
  by (simp_all add: src_used_channels_def dst_used_channels_def del: fun_upd_apply)

lemma srcs_of_append [simp]:
  "srcs_of (E @ [(a, b, sc, dc)]) x = srcs_of E x @ (if a = x then [sc] else [])"
  by (simp add: srcs_of_def)

lemma dsts_of_append [simp]:
  "dsts_of (E @ [(a, b, sc, dc)]) x = dsts_of E x @ (if b = x then [dc] else [])"
  by (simp add: dsts_of_def)

lemma reattach_step:
  assumes m: "bookkeeping_matches B t E"
    and ab: "source_block (conn_store t c) \<in> B" "target_block (conn_store t c) \<in> B"
    and det: "\<forall>x \<in> B. c \<notin> set (b_connections (block_store t x))"
  defines "a \<equiv> source_block (conn_store t c)" and "b \<equiv> target_block (conn_store t c)"
  defines "S \<equiv> first_free (srcs_of E a) 0" and "D \<equiv> first_free (dsts_of E b) 0"
  shows "channels (reattach t c) c = (S, D)"
    and "bookkeeping_matches B (reattach t c) (E @ [(a, b, S, D)])"
    and "endpoints (reattach t c) = endpoints t"
proof -
  have sa: "set (src_used_channels t a) = set (srcs_of E a)"
    and db: "set (dst_used_channels t b) = set (dsts_of E b)"
    using m ab by (auto simp: bookkeeping_matches_def a_def b_def)
  have S: "get_next_available_src_channel t a = S"
    unfolding get_next_available_src_channel_def S_def by (rule first_free_cong_set [OF sa])
  have cb: "c \<notin> set (b_connections (block_store t b))" using det ab by (simp add: b_def)
  have D: "get_next_available_dst_channel
            (t\<lparr>conn_store := (conn_store t)(c := (conn_store t c)\<lparr>src_ch_num := S\<rparr>)\<rparr>) b = D"
    unfolding get_next_available_dst_channel_def D_def used_channels_update_other(2) [OF cb]
    by (rule first_free_cong_set [OF db])
  have cs: "conn_store (reattach t c) =
      (conn_store t)(c := (conn_store t c)\<lparr>src_ch_num := S, dst_ch_num := D\<rparr>)"
    using S D by (simp add: reattach_conn_store a_def [symmetric] b_def [symmetric])
  show "channels (reattach t c) c = (S, D)" by (simp add: channels_def cs)
  show "endpoints (reattach t c) = endpoints t"
    by (intro ext) (simp add: endpoints_def cs)
  show "bookkeeping_matches B (reattach t c) (E @ [(a, b, S, D)])"
    unfolding bookkeeping_matches_def
  proof (intro ballI conjI)
    fix x assume x: "x \<in> B"
    from det x have cx: "c \<notin> set (b_connections (block_store t x))" by simp
    let ?cs = "(conn_store t)(c := (conn_store t c)\<lparr>src_ch_num := S, dst_ch_num := D\<rparr>)"
    let ?new = "(if x = a then [c] else []) @ (if x = b then [c] else [])"
    have "src_used_channels (reattach t c) x =
        src_used_channels (t\<lparr>conn_store := ?cs\<rparr>) x @
        map (\<lambda>conn. src_ch_num (?cs conn)) (filter (\<lambda>conn. source_block (?cs conn) = x) ?new)"
      by (simp add: src_used_channels_def cs reattach_lists a_def b_def)
    also have "src_used_channels (t\<lparr>conn_store := ?cs\<rparr>) x = src_used_channels t x"
      by (rule used_channels_update_other(1) [OF cx])
    finally have src: "src_used_channels (reattach t c) x =
        src_used_channels t x @
        map (\<lambda>conn. src_ch_num (?cs conn)) (filter (\<lambda>conn. source_block (?cs conn) = x) ?new)" .
    have "dst_used_channels (reattach t c) x =
        dst_used_channels (t\<lparr>conn_store := ?cs\<rparr>) x @
        map (\<lambda>conn. dst_ch_num (?cs conn)) (filter (\<lambda>conn. target_block (?cs conn) = x) ?new)"
      by (simp add: dst_used_channels_def cs reattach_lists a_def b_def)
    also have "dst_used_channels (t\<lparr>conn_store := ?cs\<rparr>) x = dst_used_channels t x"
      by (rule used_channels_update_other(2) [OF cx])
    finally have dst: "dst_used_channels (reattach t c) x =
        dst_used_channels t x @
        map (\<lambda>conn. dst_ch_num (?cs conn)) (filter (\<lambda>conn. target_block (?cs conn) = x) ?new)" .
    from m x have mx: "set (src_used_channels t x) = set (srcs_of E x)"
      "set (dst_used_channels t x) = set (dsts_of E x)"
      by (auto simp: bookkeeping_matches_def)
    show "set (src_used_channels (reattach t c) x) = set (srcs_of (E @ [(a, b, S, D)]) x)"
      unfolding src using mx(1) by (auto simp: a_def b_def)
    show "set (dst_used_channels (reattach t c) x) = set (dsts_of (E @ [(a, b, S, D)]) x)"
      unfolding dst using mx(2) by (auto simp: a_def b_def)
  qed
qed


lemma reattach_other:
  "c' \<noteq> c \<Longrightarrow> conn_store (reattach t c) c' = conn_store t c'"
  by (simp add: reattach_conn_store)

lemma fold_reattach:
  assumes "distinct cs" and "bookkeeping_matches B t E"
    and "\<forall>c \<in> set cs. source_block (conn_store t c) \<in> B \<and> target_block (conn_store t c) \<in> B"
    and "\<forall>c \<in> set cs. \<forall>x \<in> B. c \<notin> set (b_connections (block_store t x))"
  shows "map (channels (fold (\<lambda>conn s'. reattach s' conn) cs t)) cs =
           spec_assign_channels E (map (endpoints t) cs) \<and>
         endpoints (fold (\<lambda>conn s'. reattach s' conn) cs t) = endpoints t \<and>
         connections (fold (\<lambda>conn s'. reattach s' conn) cs t) = connections t \<and>
         blocks (fold (\<lambda>conn s'. reattach s' conn) cs t) = blocks t \<and>
         (\<forall>c'. c' \<notin> set cs \<longrightarrow>
            conn_store (fold (\<lambda>conn s'. reattach s' conn) cs t) c' = conn_store t c')"
  using assms
proof (induction cs arbitrary: t E)
  case Nil
  then show ?case by simp
next
  case (Cons c cs)
  let ?a = "source_block (conn_store t c)" and ?b = "target_block (conn_store t c)"
  let ?S = "first_free (srcs_of E ?a) 0" and ?D = "first_free (dsts_of E ?b) 0"
  let ?t1 = "reattach t c"
  let ?E1 = "E @ [(?a, ?b, ?S, ?D)]"
  let ?tf = "fold (\<lambda>conn s'. reattach s' conn) cs ?t1"
  from Cons.prems have ab: "?a \<in> B" "?b \<in> B"
    and det: "\<forall>x \<in> B. c \<notin> set (b_connections (block_store t x))" by simp_all
  note st = reattach_step [OF Cons.prems(2) ab det]
  have d: "distinct cs" and cn: "c \<notin> set cs" using Cons.prems(1) by simp_all
  have ep: "source_block (conn_store ?t1 k) = source_block (conn_store t k) \<and>
            target_block (conn_store ?t1 k) = target_block (conn_store t k)" for k
    using fun_cong [OF st(3), of k] by (simp add: endpoints_def)
  have e1: "\<forall>c' \<in> set cs. source_block (conn_store ?t1 c') \<in> B \<and> target_block (conn_store ?t1 c') \<in> B"
    using Cons.prems(3) by (simp add: ep)
  have l1: "\<forall>c' \<in> set cs. \<forall>x \<in> B. c' \<notin> set (b_connections (block_store ?t1 x))"
    using Cons.prems(4) cn by (auto simp: reattach_lists)
  from Cons.IH [OF d st(2) e1 l1]
  have ih: "map (channels ?tf) cs = spec_assign_channels ?E1 (map (endpoints ?t1) cs)"
    "endpoints ?tf = endpoints ?t1" "connections ?tf = connections ?t1" "blocks ?tf = blocks ?t1"
    "\<forall>c'. c' \<notin> set cs \<longrightarrow> conn_store ?tf c' = conn_store ?t1 c'"
    by simp_all
  from ih(5) cn have "channels ?tf c = channels ?t1 c" by (simp add: channels_def)
  with st(1) have hd: "channels ?tf c = (?S, ?D)" by simp
  have ec: "endpoints t c = (?a, ?b)" by (simp add: endpoints_def)
  have other: "\<forall>c'. c' \<notin> set (c # cs) \<longrightarrow> conn_store ?tf c' = conn_store t c'"
    using ih(5) by (auto simp: reattach_other)
  show ?case
    using hd ih(1-4) st(3) ec other by (simp add: Let_def)
qed

lemma detach_frame [simp]:
  "conn_store (detach t c) = conn_store t"
  "blocks (detach t c) = blocks t"
  "connections (detach t c) = connections t"
  "next_conn (detach t c) = next_conn t"
  by (simp_all add: detach_def Let_def remove_connection_def)

lemma detach_lists:
  "b_connections (block_store (detach t c) x) =
     (if x = target_block (conn_store t c)
      then remove1 c (if x = source_block (conn_store t c)
                      then remove1 c (b_connections (block_store t x))
                      else b_connections (block_store t x))
      else (if x = source_block (conn_store t c)
            then remove1 c (b_connections (block_store t x))
            else b_connections (block_store t x)))"
  by (simp add: detach_def Let_def remove_connection_def)

lemma count_list_remove1:
  "count_list (remove1 c xs) c' =
     (if c' = c \<and> c \<in> set xs then count_list xs c' - 1 else count_list xs c')"
  by (induction xs) auto

lemma count_list_all_zero: "(\<forall>c. count_list xs c = 0) \<Longrightarrow> xs = []"
  by (cases xs) (auto split: if_splits)

lemma detach_counts:
  assumes "counts_match B t (c # rest)" and "c \<notin> set rest"
  shows "counts_match B (detach t c) rest"
  unfolding counts_match_def
proof (intro ballI allI)
  fix x c' assume x: "x \<in> B"
  from assms(1) x have cnt: "\<And>k. count_list (b_connections (block_store t x)) k =
          (if k \<in> set (c # rest)
           then (if source_block (conn_store t k) = x then 1 else 0) +
                (if target_block (conn_store t k) = x then 1 else 0)
           else 0)"
    by (simp add: counts_match_def)
  have cc: "count_list (b_connections (block_store t x)) c =
      (if source_block (conn_store t c) = x then 1 else 0) +
      (if target_block (conn_store t c) = x then 1 else 0)"
    using cnt [of c] by simp
  have mem: "c \<in> set xs \<longleftrightarrow> 0 < count_list xs c" for xs :: "conn_ref list"
    using count_list_0_iff [of xs c] by auto
  show "count_list (b_connections (block_store (detach t c) x)) c' =
          (if c' \<in> set rest
           then (if source_block (conn_store (detach t c) c') = x then 1 else 0) +
                (if target_block (conn_store (detach t c) c') = x then 1 else 0)
           else 0)"
  proof (cases "c' = c")
    case True
    let ?L = "b_connections (block_store t x)"
    have one: "count_list (remove1 c xs) c = count_list xs c - 1" for xs :: "conn_ref list"
      using count_list_0_iff [of xs c] by (simp add: count_list_remove1)
    have "count_list (b_connections (block_store (detach t c) x)) c = 0"
    proof (cases "x = source_block (conn_store t c)")
      case s: True
      show ?thesis
      proof (cases "x = target_block (conn_store t c)")
        case True
        with s cc have "count_list ?L c = 2" by simp
        with s True show ?thesis by (simp add: detach_lists one)
      next
        case False
        with s cc have "count_list ?L c = 1" by simp
        with s False show ?thesis by (simp add: detach_lists one)
      qed
    next
      case s: False
      show ?thesis
      proof (cases "x = target_block (conn_store t c)")
        case True
        with s cc have "count_list ?L c = 1" by simp
        with s True show ?thesis by (simp add: detach_lists one)
      next
        case False
        with s cc have "count_list ?L c = 0" by simp
        with s False show ?thesis by (simp add: detach_lists)
      qed
    qed
    with assms(2) show ?thesis unfolding True by simp
  next
    case False
    have "count_list (b_connections (block_store (detach t c) x)) c' =
        count_list (b_connections (block_store t x)) c'"
      using False by (simp add: detach_lists count_list_remove1)
    with cnt [of c'] False show ?thesis by simp
  qed
qed

lemma fold_detach:
  assumes "distinct rest" and "counts_match B t rest"
  shows "(\<forall>x \<in> B. b_connections (block_store (fold (\<lambda>conn s'. detach s' conn) rest t) x) = []) \<and>
         conn_store (fold (\<lambda>conn s'. detach s' conn) rest t) = conn_store t \<and>
         connections (fold (\<lambda>conn s'. detach s' conn) rest t) = connections t \<and>
         blocks (fold (\<lambda>conn s'. detach s' conn) rest t) = blocks t"
  using assms
proof (induction rest arbitrary: t)
  case Nil
  then show ?case by (auto simp: counts_match_def intro: count_list_all_zero)
next
  case (Cons c rest)
  from Cons.prems have d: "distinct rest" and cn: "c \<notin> set rest" by simp_all
  from Cons.IH [OF d detach_counts [OF Cons.prems(2) cn]]
  show ?case by simp
qed


lemma init_auto_step:
  fixes t a b and E :: "(block_ref \<times> block_ref \<times> int \<times> int) list"
  defines "n \<equiv> next_conn t"
  defines "t1 \<equiv> (fst (FIFOConnection_init t a b ''FIFO'' 16 32 None None))
                  \<lparr>connections := connections t @ [next_conn t]\<rparr>"
  defines "S \<equiv> first_free (srcs_of E a) 0" and "D \<equiv> first_free (dsts_of E b) 0"
  assumes m: "bookkeeping_matches B t E" and ab: "a \<in> B" "b \<in> B"
    and fresh: "\<forall>x \<in> B. \<forall>c \<in> set (b_connections (block_store t x)). c < next_conn t"
  shows "channels t1 n = (S, D)"
    and "bookkeeping_matches B t1 (E @ [(a, b, S, D)])"
    and "\<forall>x \<in> B. \<forall>c \<in> set (b_connections (block_store t1 x)). c < next_conn t1"
    and "next_conn t1 = Suc n" and "connections t1 = connections t @ [n]"
    and "\<forall>c. c < n \<longrightarrow> conn_store t1 c = conn_store t c"
proof -
  have sa: "set (src_used_channels t a) = set (srcs_of E a)"
    and db: "set (dst_used_channels t b) = set (dsts_of E b)"
    using m ab by (auto simp: bookkeeping_matches_def)
  have S: "get_next_available_src_channel t a = S"
    unfolding get_next_available_src_channel_def S_def by (rule first_free_cong_set [OF sa])
  have D: "get_next_available_dst_channel t b = D"
    unfolding get_next_available_dst_channel_def D_def by (rule first_free_cong_set [OF db])
  show "channels t1 n = (S, D)"
    by (simp add: channels_def t1_def n_def S D)
  show "next_conn t1 = Suc n" by (simp add: t1_def n_def)
  show "connections t1 = connections t @ [n]" by (simp add: t1_def n_def)
  show "\<forall>x \<in> B. \<forall>c \<in> set (b_connections (block_store t1 x)). c < next_conn t1"
    using fresh by (auto simp: t1_def less_Suc_eq)
  show "\<forall>c. c < n \<longrightarrow> conn_store t1 c = conn_store t c"
    by (simp add: t1_def n_def FIFOConnection_init_def Let_def append_connection_def)
  show "bookkeeping_matches B t1 (E @ [(a, b, S, D)])"
    unfolding bookkeeping_matches_def
  proof (intro ballI conjI)
    fix x assume x: "x \<in> B"
    from fresh x have nx: "n \<notin> set (b_connections (block_store t x))"
      by (auto simp: n_def)
    from m x have mx: "set (src_used_channels t x) = set (srcs_of E x)"
      "set (dst_used_channels t x) = set (dsts_of E x)"
      by (auto simp: bookkeeping_matches_def)
    have "set (src_used_channels t1 x) = set (src_used_channels t x) \<union> (if x = a then {S} else {})"
      using nx by (auto simp: src_used_channels_def t1_def n_def S)
    then show "set (src_used_channels t1 x) = set (srcs_of (E @ [(a, b, S, D)]) x)"
      using mx(1) by auto
    have "set (dst_used_channels t1 x) = set (dst_used_channels t x) \<union> (if x = b then {D} else {})"
      using nx by (auto simp: dst_used_channels_def t1_def n_def D)
    then show "set (dst_used_channels t1 x) = set (dsts_of (E @ [(a, b, S, D)]) x)"
      using mx(2) by auto
  qed
qed

lemma create_in_order_channels:
  assumes "bookkeeping_matches B t E" and "\<forall>(a, b) \<in> set es. a \<in> B \<and> b \<in> B"
    and "\<forall>x \<in> B. \<forall>c \<in> set (b_connections (block_store t x)). c < next_conn t"
  shows "connections (create_in_order es t) =
           connections t @ [next_conn t ..< next_conn t + length es] \<and>
         map (channels (create_in_order es t)) [next_conn t ..< next_conn t + length es] =
           spec_assign_channels E es \<and>
         (\<forall>c. c < next_conn t \<longrightarrow> conn_store (create_in_order es t) c = conn_store t c)"
  using assms
proof (induction es arbitrary: t E)
  case Nil
  then show ?case by simp
next
  case (Cons e es)
  obtain a b where e: "e = (a, b)" by (cases e)
  let ?n = "next_conn t"
  let ?t1 = "(fst (FIFOConnection_init t a b ''FIFO'' 16 32 None None))
               \<lparr>connections := connections t @ [next_conn t]\<rparr>"
  let ?S = "first_free (srcs_of E a) 0" and ?D = "first_free (dsts_of E b) 0"
  from Cons.prems(2) e have ab: "a \<in> B" "b \<in> B" and rest: "\<forall>(a, b) \<in> set es. a \<in> B \<and> b \<in> B"
    by auto
  note st = init_auto_step [OF Cons.prems(1) ab Cons.prems(3)]
  have unfold: "create_in_order (e # es) t = create_in_order es ?t1"
    by (simp add: e split_def Let_def)
  from Cons.IH [OF st(2) rest st(3)]
  have ih: "connections (create_in_order es ?t1) =
              connections ?t1 @ [next_conn ?t1 ..< next_conn ?t1 + length es]"
    "map (channels (create_in_order es ?t1)) [next_conn ?t1 ..< next_conn ?t1 + length es] =
       spec_assign_channels (E @ [(a, b, ?S, ?D)]) es"
    "\<forall>c. c < next_conn ?t1 \<longrightarrow> conn_store (create_in_order es ?t1) c = conn_store ?t1 c"
    by simp_all
  have upt: "[?n ..< ?n + length (e # es)] = ?n # [Suc ?n ..< Suc ?n + length es]"
    by (subst upt_rec) simp
  have "conn_store (create_in_order es ?t1) ?n = conn_store ?t1 ?n"
    using ih(3) st(4) by simp
  then have hd: "channels (create_in_order es ?t1) ?n = (?S, ?D)"
    using st(1) by (simp add: channels_def)
  have fr: "\<forall>c. c < ?n \<longrightarrow> conn_store (create_in_order es ?t1) c = conn_store t c"
    using ih(3) st(4) st(6) by (simp add: less_Suc_eq)
  show ?case
    unfolding unfold upt
    using ih(1,2) hd fr st(4,5) by (simp add: e Let_def)
qed


lemma lists_consistent_counts:
  "lists_consistent s \<Longrightarrow> counts_match (set (blocks s)) s (connections s)"
  by (simp add: lists_consistent_def counts_match_def)

lemma ex_gap_consistent: "lists_consistent ex_gap"
  by (auto simp: lists_consistent_def ex_defs run_defs)

lemma create_from_scratch_spec:
  "map (channels (create_in_order es (without_connections s)))
     (connections (create_in_order es (without_connections s))) =
   spec_assign_channels [] es"
proof -
  let ?w = "without_connections s"
  have mw: "bookkeeping_matches UNIV ?w []"
    by (simp add: bookkeeping_matches_def src_used_channels_def dst_used_channels_def
        without_connections_def srcs_of_def dsts_of_def)
  have fw: "\<forall>x \<in> UNIV. \<forall>c \<in> set (b_connections (block_store ?w x)). c < next_conn ?w"
    by (simp add: without_connections_def)
  have ew: "\<forall>(a, b) \<in> set es. a \<in> UNIV \<and> b \<in> UNIV" by simp
  have cw: "connections ?w = []" by (simp add: without_connections_def)
  from create_in_order_channels [OF mw ew fw]
  show ?thesis by (simp add: cw)
qed

lemma reassign_all_channels_spec:
  assumes "lists_consistent s"
  shows "connections (reassign_all_channels s True) = connections s \<and>
         map (endpoints (reassign_all_channels s True)) (connections s) =
           map (endpoints s) (connections s) \<and>
         map (channels (reassign_all_channels s True)) (connections s) =
           spec_assign_channels [] (map (endpoints s) (connections s))"
proof (cases "connections s = []")
  case True
  then show ?thesis by (simp add: reassign_all_channels_def)
next
  case False
  let ?B = "set (blocks s)"
  let ?t0 = "fold (\<lambda>conn s'. detach s' conn) (connections s) s"
  from assms have d: "distinct (connections s)" by (simp add: lists_consistent_def)
  from fold_detach [OF d lists_consistent_counts [OF assms]]
  have t0: "\<forall>x \<in> ?B. b_connections (block_store ?t0 x) = []"
    "conn_store ?t0 = conn_store s" "connections ?t0 = connections s"
    by simp_all
  have m0: "bookkeeping_matches ?B ?t0 []"
    using t0(1) by (simp add: bookkeeping_matches_def src_used_channels_def
        dst_used_channels_def srcs_of_def dsts_of_def)
  have e0: "\<forall>c \<in> set (connections s).
      source_block (conn_store ?t0 c) \<in> ?B \<and> target_block (conn_store ?t0 c) \<in> ?B"
    using assms by (simp add: lists_consistent_def t0(2))
  have l0: "\<forall>c \<in> set (connections s). \<forall>x \<in> ?B. c \<notin> set (b_connections (block_store ?t0 x))"
    using t0(1) by simp
  have ends0: "endpoints ?t0 = endpoints s"
    by (intro ext) (simp add: endpoints_def t0(2))
  have r: "reassign_all_channels s True =
      fold (\<lambda>conn s'. reattach s' conn) (connections s) ?t0"
    using False by (simp add: reassign_all_channels_def Let_def t0(3))
  from fold_reattach [OF d m0 e0 l0]
  show ?thesis
    unfolding r by (simp add: ends0 t0(3))
qed

section \<open>Uniqueness of the channels\<close>

lemma spec_assign_channels_distinct:
  assumes "distinct (srcs_of E x)" and "distinct (dsts_of E x)"
  shows "distinct (srcs_of (E @ numbered es (spec_assign_channels E es)) x) \<and>
         distinct (dsts_of (E @ numbered es (spec_assign_channels E es)) x)"
  using assms
proof (induction es arbitrary: E)
  case Nil
  then show ?case by (simp add: numbered_def)
next
  case (Cons e es)
  obtain a b where e: "e = (a, b)" by (cases e)
  let ?S = "first_free (srcs_of E a) 0" and ?D = "first_free (dsts_of E b) 0"
  let ?E1 = "E @ [(a, b, ?S, ?D)]"
  have s1: "distinct (srcs_of ?E1 x)"
    using Cons.prems(1) first_free_unused [of "srcs_of E a" 0] by auto
  have d1: "distinct (dsts_of ?E1 x)"
    using Cons.prems(2) first_free_unused [of "dsts_of E b" 0] by auto
  have eq: "E @ numbered (e # es) (spec_assign_channels E (e # es)) =
      ?E1 @ numbered es (spec_assign_channels ?E1 es)"
    by (simp add: e numbered_def Let_def)
  show ?case unfolding eq by (rule Cons.IH [OF s1 d1])
qed

lemma srcs_of_numbered:
  "srcs_of (numbered (map (endpoints t) cs) (map (channels t) cs)) x =
     map (\<lambda>c. src_ch_num (conn_store t c)) (filter (\<lambda>c. source_block (conn_store t c) = x) cs)"
  by (induction cs) (auto simp: srcs_of_def numbered_def endpoints_def channels_def)

lemma dsts_of_numbered:
  "dsts_of (numbered (map (endpoints t) cs) (map (channels t) cs)) x =
     map (\<lambda>c. dst_ch_num (conn_store t c)) (filter (\<lambda>c. target_block (conn_store t c) = x) cs)"
  by (induction cs) (auto simp: dsts_of_def numbered_def endpoints_def channels_def)

lemma reassign_establishes_unique:
  assumes "lists_consistent s"
  shows "channels_unique (reassign_all_channels s True)"
proof -
  let ?t = "reassign_all_channels s True"
  from reassign_all_channels_spec [OF assms]
  have c: "connections ?t = connections s"
    and e: "map (endpoints ?t) (connections s) = map (endpoints s) (connections s)"
    and ch: "map (channels ?t) (connections s) =
               spec_assign_channels [] (map (endpoints s) (connections s))"
    by blast+
  have "distinct (srcs_of (numbered (map (endpoints ?t) (connections ?t))
                    (map (channels ?t) (connections ?t))) x) \<and>
        distinct (dsts_of (numbered (map (endpoints ?t) (connections ?t))
                    (map (channels ?t) (connections ?t))) x)" for x
    using spec_assign_channels_distinct [of "[]" x "map (endpoints s) (connections s)"]
    unfolding c e ch by (simp add: srcs_of_def dsts_of_def)
  then show ?thesis
    unfolding channels_unique_def srcs_of_numbered dsts_of_numbered by blast
qed

lemma consistent_attached:
  assumes "lists_consistent s" and "c \<in> set (connections s)"
  shows "c \<in> set (b_connections (block_store s (source_block (conn_store s c))))"
    and "c \<in> set (b_connections (block_store s (target_block (conn_store s c))))"
proof -
  from assms have sb: "source_block (conn_store s c) \<in> set (blocks s)"
    and tb: "target_block (conn_store s c) \<in> set (blocks s)"
    by (auto simp: lists_consistent_def)
  from assms sb have "count_list (b_connections (block_store s (source_block (conn_store s c)))) c > 0"
    by (simp add: lists_consistent_def)
  then show "c \<in> set (b_connections (block_store s (source_block (conn_store s c))))"
    using count_list_0_iff [of "b_connections (block_store s (source_block (conn_store s c)))" c]
    by auto
  from assms tb have "count_list (b_connections (block_store s (target_block (conn_store s c)))) c > 0"
    by (simp add: lists_consistent_def)
  then show "c \<in> set (b_connections (block_store s (target_block (conn_store s c))))"
    using count_list_0_iff [of "b_connections (block_store s (target_block (conn_store s c)))" c]
    by auto
qed

lemma create_preserves_unique:
  assumes u: "channels_unique s" and l: "lists_consistent s" and al: "conns_allocated s"
  shows "channels_unique (fst (create_connection_between_blocks s a b))"
proof (cases "a \<noteq> b \<and> can_add_connection s a \<and> can_add_connection s b")
  case False
  then show ?thesis using u by (auto simp: create_connection_between_blocks_def)
next
  case True
  let ?n = "next_conn s"
  let ?S = "get_next_available_src_channel s a" and ?D = "get_next_available_dst_channel s b"
  let ?t = "fst (create_connection_between_blocks s a b)"
  have cn: "connections ?t = connections s @ [?n]"
    using True by (simp add: create_connection_between_blocks_def Let_def split_def)
  have fresh: "?n \<notin> set (connections s)" using al by (auto simp: conns_allocated_def)
  have old: "c \<in> set (connections s) \<Longrightarrow> conn_store ?t c = conn_store s c" for c
    using True fresh
    by (auto simp: create_connection_between_blocks_def Let_def split_def
        FIFOConnection_init_def append_connection_def)
  have new: "source_block (conn_store ?t ?n) = a" "target_block (conn_store ?t ?n) = b"
    "src_ch_num (conn_store ?t ?n) = ?S" "dst_ch_num (conn_store ?t ?n) = ?D"
    using True by (simp_all add: create_connection_between_blocks_def Let_def split_def)
  have Sfree: "?S \<noteq> src_ch_num (conn_store s c)"
    if "c \<in> set (connections s)" "source_block (conn_store s c) = a" for c
  proof -
    from consistent_attached(1) [OF l that(1)] that(2)
    have "src_ch_num (conn_store s c) \<in> set (src_used_channels s a)"
      by (auto simp: src_used_channels_def)
    then show ?thesis
      using first_free_unused [of "src_used_channels s a" 0]
      by (auto simp: get_next_available_src_channel_def)
  qed
  have Dfree: "?D \<noteq> dst_ch_num (conn_store s c)"
    if "c \<in> set (connections s)" "target_block (conn_store s c) = b" for c
  proof -
    from consistent_attached(2) [OF l that(1)] that(2)
    have "dst_ch_num (conn_store s c) \<in> set (dst_used_channels s b)"
      by (auto simp: dst_used_channels_def)
    then show ?thesis
      using first_free_unused [of "dst_used_channels s b" 0]
      by (auto simp: get_next_available_dst_channel_def)
  qed
  have fs: "filter (\<lambda>c. source_block (conn_store ?t c) = x) (connections s) =
            filter (\<lambda>c. source_block (conn_store s c) = x) (connections s)" for x
    by (rule filter_cong) (simp_all add: old)
  have ft: "filter (\<lambda>c. target_block (conn_store ?t c) = x) (connections s) =
            filter (\<lambda>c. target_block (conn_store s c) = x) (connections s)" for x
    by (rule filter_cong) (simp_all add: old)
  have ms: "map (\<lambda>c. src_ch_num (conn_store ?t c)) (filter (\<lambda>c. source_block (conn_store s c) = x) (connections s)) =
            map (\<lambda>c. src_ch_num (conn_store s c)) (filter (\<lambda>c. source_block (conn_store s c) = x) (connections s))" for x
    by (rule map_cong) (simp_all add: old)
  have mt: "map (\<lambda>c. dst_ch_num (conn_store ?t c)) (filter (\<lambda>c. target_block (conn_store s c) = x) (connections s)) =
            map (\<lambda>c. dst_ch_num (conn_store s c)) (filter (\<lambda>c. target_block (conn_store s c) = x) (connections s))" for x
    by (rule map_cong) (simp_all add: old)
  show ?thesis
    unfolding channels_unique_def cn
  proof (intro allI conjI)
    fix x
    from u have ux: "distinct (map (\<lambda>c. src_ch_num (conn_store s c))
                     (filter (\<lambda>c. source_block (conn_store s c) = x) (connections s)))"
      by (simp add: channels_unique_def)
    have "map (\<lambda>c. src_ch_num (conn_store ?t c))
            (filter (\<lambda>c. source_block (conn_store ?t c) = x) (connections s @ [?n])) =
          map (\<lambda>c. src_ch_num (conn_store s c))
            (filter (\<lambda>c. source_block (conn_store s c) = x) (connections s)) @
          (if a = x then [?S] else [])"
      using new by (auto simp: fs ms)
    then show "distinct (map (\<lambda>c. src_ch_num (conn_store ?t c))
            (filter (\<lambda>c. source_block (conn_store ?t c) = x) (connections s @ [?n])))"
      using ux Sfree by auto
  next
    fix x
    from u have ux: "distinct (map (\<lambda>c. dst_ch_num (conn_store s c))
                     (filter (\<lambda>c. target_block (conn_store s c) = x) (connections s)))"
      by (simp add: channels_unique_def)
    have "map (\<lambda>c. dst_ch_num (conn_store ?t c))
            (filter (\<lambda>c. target_block (conn_store ?t c) = x) (connections s @ [?n])) =
          map (\<lambda>c. dst_ch_num (conn_store s c))
            (filter (\<lambda>c. target_block (conn_store s c) = x) (connections s)) @
          (if b = x then [?D] else [])"
      using new by (auto simp: ft mt)
    then show "distinct (map (\<lambda>c. dst_ch_num (conn_store ?t c))
            (filter (\<lambda>c. target_block (conn_store ?t c) = x) (connections s @ [?n])))"
      using ux Dfree by auto
  qed
qed

lemma ex_three_consistent: "lists_consistent ex_three"
  by (auto simp: lists_consistent_def ex_defs run_defs)

lemma ex_clash_consistent: "lists_consistent ex_clash"
  by (auto simp: lists_consistent_def ex_defs run_defs)

section \<open>Importing a well-formed FIFO file\<close>



lemma enumerate_Cons_view:
  "map (\<lambda>(j, n). f j n) (enumerate i (x # xs)) = f i x # map (\<lambda>(j, n). f j n) (enumerate (Suc i) xs)"
  by simp









section \<open>Refusals that change nothing\<close>

lemma create_at_capacity_fails:
  "\<not> can_add_connection s source \<or> \<not> can_add_connection s target \<Longrightarrow>
   create_connection_between_blocks s source target = (s, False)"
  by (auto simp: create_connection_between_blocks_def)

lemma create_keeps_capacity:
  assumes "source \<noteq> target"
  shows "length (b_connections (block_store (fst (create_connection_between_blocks s source target)) x))
           \<le> max 15 (length (b_connections (block_store s x)))"
  using assms
  by (auto simp: create_connection_between_blocks_def can_add_connection_def Let_def split_def)

lemma import_connections_json_format_error:
  "contains data ''fifo_infos'' = Inr False \<Longrightarrow> contains data ''connections'' = Inr False \<Longrightarrow>
   import_connections_json s data = (s, Import_failed)"
  by (simp add: import_connections_json_def)

lemma import_fifo_format_format_error:
  "contains data ''fifo_infos'' = Inr False \<Longrightarrow> import_fifo_format s answer data = (s, Failed)"
  by (simp add: import_fifo_format_def)

lemma load_json_format_error:
  "contains design_data ''blocks'' = Inr False \<Longrightarrow>
   load_json s answer design_data = (new_design s answer, Failed)"
  by (simp add: load_json_def)

section \<open>What the operations keep\<close>

text \<open>
  The empty window is well-formed. An attribute written on a block or a connection, or
  a redrawn curve, changes nothing that well-formedness reads; constructing a block or
  a connection between two blocks of the window and appending it to the window's list
  keeps the diagram well-formed.
\<close>

lemma well_formed_init: "well_formed init_gui"
  by (simp add: well_formed_def lists_consistent_def blocks_allocated_def conns_allocated_def
      init_gui_def)

lemma same_structure_well_formed:
  assumes "connections s' = connections s" and "blocks s' = blocks s"
    and "next_block s' = next_block s" and "next_conn s' = next_conn s"
    and "\<And>c. source_block (conn_store s' c) = source_block (conn_store s c)"
    and "\<And>c. target_block (conn_store s' c) = target_block (conn_store s c)"
    and "\<And>x. b_connections (block_store s' x) = b_connections (block_store s x)"
    and "well_formed s"
  shows "well_formed s'"
  using assms
  by (simp add: well_formed_def lists_consistent_def blocks_allocated_def conns_allocated_def)

lemma well_formed_new_block:
  assumes "well_formed t"
  shows "well_formed ((fst (Block_init t x y w h name num))\<lparr>blocks := blocks t @ [next_block t]\<rparr>)"
proof -
  let ?t1 = "(fst (Block_init t x y w h name num))\<lparr>blocks := blocks t @ [next_block t]\<rparr>"
  from assms have l: "lists_consistent t" and ab: "blocks_allocated t" and ac: "conns_allocated t"
    by (simp_all add: well_formed_def)
  have ends: "\<forall>c \<in> set (connections t).
      source_block (conn_store t c) \<noteq> next_block t \<and> target_block (conn_store t c) \<noteq> next_block t"
    using l ab by (fastforce simp: lists_consistent_def blocks_allocated_def)
  have "lists_consistent ?t1"
    using l ab ends
    by (auto simp: lists_consistent_def blocks_allocated_def)
  moreover have "blocks_allocated ?t1"
    using ab by (auto simp: blocks_allocated_def less_Suc_eq)
  moreover have "conns_allocated ?t1"
    using ac by (simp add: conns_allocated_def)
  ultimately show ?thesis by (simp add: well_formed_def)
qed

lemma well_formed_new_connection:
  assumes "well_formed t" and "a \<in> set (blocks t)" and "b \<in> set (blocks t)"
  shows "well_formed ((fst (FIFOConnection_init t a b name dep wid src dst))
                        \<lparr>connections := connections t @ [next_conn t]\<rparr>)"
proof -
  let ?n = "next_conn t"
  let ?t1 = "(fst (FIFOConnection_init t a b name dep wid src dst))
               \<lparr>connections := connections t @ [next_conn t]\<rparr>"
  from assms(1) have l: "lists_consistent t" and ab: "blocks_allocated t" and ac: "conns_allocated t"
    by (simp_all add: well_formed_def)
  have fresh: "?n \<notin> set (connections t)" using ac by (auto simp: conns_allocated_def)
  have d: "distinct (connections ?t1)"
    using l fresh by (simp add: lists_consistent_def)
  have e: "\<forall>c \<in> set (connections ?t1).
        source_block (conn_store ?t1 c) \<in> set (blocks ?t1) \<and>
        target_block (conn_store ?t1 c) \<in> set (blocks ?t1)"
    using l assms(2,3) by (auto simp: lists_consistent_def)
  have c: "count_list (b_connections (block_store ?t1 x)) k =
          (if k \<in> set (connections ?t1)
           then (if source_block (conn_store ?t1 k) = x then 1 else 0) +
                (if target_block (conn_store ?t1 k) = x then 1 else 0)
           else 0)" if x: "x \<in> set (blocks ?t1)" for x k
  proof -
    from x have xb: "x \<in> set (blocks t)" by simp
    from l xb have old: "count_list (b_connections (block_store t x)) k =
          (if k \<in> set (connections t)
           then (if source_block (conn_store t k) = x then 1 else 0) +
                (if target_block (conn_store t k) = x then 1 else 0)
           else 0)"
      by (simp add: lists_consistent_def)
    show ?thesis
    proof (cases "k = ?n")
      case True
      with old fresh have "count_list (b_connections (block_store t x)) ?n = 0" by simp
      then show ?thesis unfolding True by simp
    next
      case False
      then show ?thesis using old by simp
    qed
  qed
  have "lists_consistent ?t1"
    unfolding lists_consistent_def using d e c by blast
  moreover have "blocks_allocated ?t1"
    using ab by (simp add: blocks_allocated_def)
  moreover have "conns_allocated ?t1"
    using ac by (auto simp: conns_allocated_def less_Suc_eq)
  ultimately show ?thesis by (simp add: well_formed_def)
qed

text \<open>Adding a block and drawing a connection.\<close>

lemma well_formed_add_block: "well_formed s \<Longrightarrow> well_formed (add_block s name)"
  by (simp add: add_block_def Let_def split_def well_formed_new_block)

lemma well_formed_create_connection:
  assumes "well_formed s" and "a \<in> set (blocks s)" and "b \<in> set (blocks s)"
  shows "well_formed (fst (create_connection_between_blocks s a b))"
proof (cases "a \<noteq> b \<and> can_add_connection s a \<and> can_add_connection s b")
  case False
  then show ?thesis using assms(1) by (auto simp: create_connection_between_blocks_def)
next
  case True
  let ?name = "if 0 < length (filter (joins s a b) (connections s))
               then ''FIFO_'' @ str_nat (length (filter (joins s a b) (connections s)) + 1)
               else ''FIFO''"
  let ?t1 = "(fst (FIFOConnection_init s a b ?name 16 32 None None))
               \<lparr>connections := connections s @ [next_conn s]\<rparr>"
  have eq: "fst (create_connection_between_blocks s a b) = redraw_between ?t1 a b"
    using True by (simp add: create_connection_between_blocks_def Let_def split_def)
  have w1: "well_formed ?t1" by (rule well_formed_new_connection [OF assms])
  show ?thesis
    unfolding eq by (rule same_structure_well_formed [OF _ _ _ _ _ _ _ w1]) simp_all
qed

text \<open>
  Deleting a connection of the window takes it out of the lists of its two blocks and
  out of the window's list; deleting a block first deletes the connections at the block.
\<close>

lemma counts_match_set:
  "set cs = set cs' \<Longrightarrow> counts_match B t cs = counts_match B t cs'"
  by (simp add: counts_match_def)

lemma lists_consistent_iff_counts:
  "lists_consistent s \<longleftrightarrow>
     distinct (connections s) \<and>
     (\<forall>c \<in> set (connections s).
        source_block (conn_store s c) \<in> set (blocks s) \<and>
        target_block (conn_store s c) \<in> set (blocks s)) \<and>
     counts_match (set (blocks s)) s (connections s)"
  by (simp add: lists_consistent_def counts_match_def)

lemma counts_match_frame:
  assumes "conn_store s' = conn_store s"
    and "\<And>x. b_connections (block_store s' x) = b_connections (block_store s x)"
  shows "counts_match B s' cs = counts_match B s cs"
  using assms by (simp add: counts_match_def)

lemma detach_next_block [simp]: "next_block (detach t c) = next_block t"
  by (simp add: detach_def Let_def remove_connection_def)

lemma well_formed_delete_connection:
  assumes "well_formed s" and "c \<in> set (connections s)"
  shows "well_formed (delete_connection s c confirm answer)"
proof (cases "confirm \<and> \<not> answer")
  case True
  then show ?thesis using assms(1) by (simp add: delete_connection_def)
next
  case False
  let ?t = "(detach s c)\<lparr>connections := remove1 c (connections s)\<rparr>"
  let ?r = "redraw_between ?t (source_block (conn_store s c)) (target_block (conn_store s c))"
  from False have nf: "(confirm \<and> \<not> answer) = False" by simp
  have eq: "delete_connection s c confirm answer = ?r"
    by (simp add: delete_connection_def detach_def Let_def remove_connection_def nf)
  from assms(1) have l: "lists_consistent s" and ab: "blocks_allocated s" and ac: "conns_allocated s"
    by (simp_all add: well_formed_def)
  from l have d: "distinct (connections s)"
    and e: "\<forall>k \<in> set (connections s). source_block (conn_store s k) \<in> set (blocks s) \<and>
              target_block (conn_store s k) \<in> set (blocks s)"
    and cm: "counts_match (set (blocks s)) s (connections s)"
    by (simp_all add: lists_consistent_iff_counts)
  have cn: "c \<notin> set (remove1 c (connections s))" using d by simp
  have "set (c # remove1 c (connections s)) = set (connections s)"
    using assms(2) d by auto
  with cm have "counts_match (set (blocks s)) s (c # remove1 c (connections s))"
    using counts_match_set by blast
  from detach_counts [OF this cn]
  have "counts_match (set (blocks s)) (detach s c) (remove1 c (connections s))" .
  then have cm': "counts_match (set (blocks ?t)) ?t (connections ?t)"
    by (simp add: counts_match_def)
  have "lists_consistent ?t"
    unfolding lists_consistent_iff_counts using d e cm' by (auto dest: notin_set_remove1)
  moreover have "blocks_allocated ?t" using ab by (simp add: blocks_allocated_def)
  moreover have "conns_allocated ?t" using ac
    by (auto simp: conns_allocated_def dest: notin_set_remove1)
  ultimately have w: "well_formed ?t" by (simp add: well_formed_def)
  show ?thesis
    unfolding eq by (rule same_structure_well_formed [OF _ _ _ _ _ _ _ w]) simp_all
qed

lemma delete_connection_connections:
  "connections (delete_connection s c False answer) = remove1 c (connections s)"
  by (simp add: delete_connection_def Let_def remove_connection_def)

lemma delete_connection_frame:
  "blocks (delete_connection s c confirm answer) = blocks s"
  "conn_store (delete_connection s c confirm answer) = conn_store s"
  by (simp_all add: delete_connection_def Let_def remove_connection_def)

lemma fold_delete:
  assumes "well_formed s" and "distinct cs" and "set cs \<subseteq> set (connections s)"
  shows "well_formed (fold (\<lambda>conn s'. delete_connection s' conn False False) cs s) \<and>
         set (connections (fold (\<lambda>conn s'. delete_connection s' conn False False) cs s)) =
           set (connections s) - set cs \<and>
         blocks (fold (\<lambda>conn s'. delete_connection s' conn False False) cs s) = blocks s \<and>
         conn_store (fold (\<lambda>conn s'. delete_connection s' conn False False) cs s) = conn_store s"
  using assms
proof (induction cs arbitrary: s)
  case Nil
  then show ?case by simp
next
  case (Cons c cs)
  let ?s1 = "delete_connection s c False False"
  from Cons.prems have c: "c \<in> set (connections s)" and d: "distinct cs" and cn: "c \<notin> set cs"
    by auto
  have w1: "well_formed ?s1" by (rule well_formed_delete_connection [OF Cons.prems(1) c])
  from Cons.prems(1) have ds: "distinct (connections s)"
    by (simp add: well_formed_def lists_consistent_def)
  have c1: "set (connections ?s1) = set (connections s) - {c}"
    using ds by (simp add: delete_connection_connections)
  have sub: "set cs \<subseteq> set (connections ?s1)"
    using Cons.prems(3) cn c1 by auto
  from Cons.IH [OF w1 d sub] c1 show ?case
    by (auto simp: delete_connection_frame)
qed

lemma well_formed_delete_block:
  assumes "well_formed s"
  shows "well_formed (delete_block s block answer)"
proof (cases answer)
  case False
  then show ?thesis using assms by (simp add: delete_block_def)
next
  case True
  let ?cs = "filter (\<lambda>conn. source_block (conn_store s conn) = block \<or>
                          target_block (conn_store s conn) = block) (connections s)"
  let ?s1 = "fold (\<lambda>conn s'. delete_connection s' conn False False) ?cs s"
  from assms have ds: "distinct (connections s)"
    by (simp add: well_formed_def lists_consistent_def)
  from fold_delete [OF assms, of ?cs] ds
  have w1: "well_formed ?s1"
    and c1: "set (connections ?s1) = set (connections s) - set ?cs"
    and b1: "blocks ?s1 = blocks s" and st: "conn_store ?s1 = conn_store s"
    by simp_all
  have eq: "delete_block s block answer = ?s1\<lparr>blocks := remove1 block (blocks ?s1)\<rparr>"
    using True by (simp add: delete_block_def Let_def)
  from w1 have l: "lists_consistent ?s1" and ab: "blocks_allocated ?s1" and ac: "conns_allocated ?s1"
    by (simp_all add: well_formed_def)
  have notouch: "\<forall>k \<in> set (connections ?s1).
      source_block (conn_store ?s1 k) \<noteq> block \<and> target_block (conn_store ?s1 k) \<noteq> block"
    unfolding c1 st by auto
  from l have d1: "distinct (connections ?s1)"
    and e1: "\<forall>k \<in> set (connections ?s1). source_block (conn_store ?s1 k) \<in> set (blocks ?s1) \<and>
              target_block (conn_store ?s1 k) \<in> set (blocks ?s1)"
    and cm1: "counts_match (set (blocks ?s1)) ?s1 (connections ?s1)"
    by (simp_all add: lists_consistent_iff_counts)
  have e2: "\<forall>k \<in> set (connections ?s1).
      source_block (conn_store ?s1 k) \<in> set (remove1 block (blocks ?s1)) \<and>
      target_block (conn_store ?s1 k) \<in> set (remove1 block (blocks ?s1))"
    using e1 notouch by (simp add: in_set_remove1)
  have cm2: "counts_match (set (remove1 block (blocks ?s1))) ?s1 (connections ?s1)"
    using cm1 set_remove1_subset [of block "blocks ?s1"]
    unfolding counts_match_def by blast
  have "lists_consistent (?s1\<lparr>blocks := remove1 block (blocks ?s1)\<rparr>)"
    unfolding lists_consistent_iff_counts using d1 e2 cm2
    by (simp add: counts_match_def)
  moreover have "blocks_allocated (?s1\<lparr>blocks := remove1 block (blocks ?s1)\<rparr>)"
    using ab by (auto simp: blocks_allocated_def dest: notin_set_remove1)
  moreover have "conns_allocated (?s1\<lparr>blocks := remove1 block (blocks ?s1)\<rparr>)"
    using ac by (simp add: conns_allocated_def)
  ultimately show ?thesis unfolding eq by (simp add: well_formed_def)
qed

text \<open>Editing a connection, clearing the design, reassigning the channels.\<close>

lemma well_formed_edit_connection:
  assumes "well_formed s"
  shows "well_formed (edit_connection_apply_changes s c new_name new_depth new_width new_src new_dst)"
proof -
  let ?t = "s\<lparr>conn_store := (conn_store s)
               (c := (conn_store s c)
                  \<lparr>c_name := new_name, depth := new_depth, c_width := new_width,
                   src_ch_num := new_src, dst_ch_num := new_dst\<rparr>)\<rparr>"
  have "well_formed (draw ?t c)"
    by (rule same_structure_well_formed [OF _ _ _ _ _ _ _ assms]) simp_all
  then show ?thesis using assms by (simp add: edit_connection_apply_changes_def)
qed

lemma well_formed_new_design: "well_formed s \<Longrightarrow> well_formed (new_design s answer)"
  by (simp add: new_design_def well_formed_def lists_consistent_def blocks_allocated_def
      conns_allocated_def)

lemma reattach_counts:
  assumes "counts_match B t done" and "c \<notin> set done"
  shows "counts_match B (reattach t c) (c # done)"
  unfolding counts_match_def
proof (intro ballI allI)
  fix x k assume x: "x \<in> B"
  from assms(1) x have old: "count_list (b_connections (block_store t x)) k =
          (if k \<in> set done
           then (if source_block (conn_store t k) = x then 1 else 0) +
                (if target_block (conn_store t k) = x then 1 else 0)
           else 0)" for k
    by (simp add: counts_match_def)
  have ends: "source_block (conn_store (reattach t c) k) = source_block (conn_store t k)"
    "target_block (conn_store (reattach t c) k) = target_block (conn_store t k)" for k
    by (simp_all add: reattach_conn_store)
  show "count_list (b_connections (block_store (reattach t c) x)) k =
          (if k \<in> set (c # done)
           then (if source_block (conn_store (reattach t c) k) = x then 1 else 0) +
                (if target_block (conn_store (reattach t c) k) = x then 1 else 0)
           else 0)"
  proof (cases "k = c")
    case True
    from old [of c] assms(2) have "count_list (b_connections (block_store t x)) c = 0" by simp
    then show ?thesis unfolding True ends by (simp add: reattach_lists)
  next
    case False
    then show ?thesis unfolding ends using old [of k] by (simp add: reattach_lists)
  qed
qed

lemma fold_reattach_counts:
  assumes "counts_match B t done" and "distinct cs" and "set cs \<inter> set done = {}"
  shows "counts_match B (fold (\<lambda>conn s'. reattach s' conn) cs t) (rev cs @ done) \<and>
         next_conn (fold (\<lambda>conn s'. reattach s' conn) cs t) = next_conn t \<and>
         next_block (fold (\<lambda>conn s'. reattach s' conn) cs t) = next_block t"
  using assms
proof (induction cs arbitrary: t "done")
  case Nil
  then show ?case by simp
next
  case (Cons c cs)
  from Cons.prems have cd: "c \<notin> set done" and d: "distinct cs"
    and dis: "set cs \<inter> set (c # done) = {}" by auto
  from Cons.IH [OF reattach_counts [OF Cons.prems(1) cd] d dis]
  show ?case by simp
qed

lemma fold_detach_counters:
  "next_conn (fold (\<lambda>conn s'. detach s' conn) cs t) = next_conn t \<and>
   next_block (fold (\<lambda>conn s'. detach s' conn) cs t) = next_block t"
  by (induction cs arbitrary: t) simp_all

lemma well_formed_reassign:
  assumes "well_formed s"
  shows "well_formed (reassign_all_channels s answer)"
proof (cases "connections s \<noteq> [] \<and> answer")
  case False
  then show ?thesis using assms by (auto simp: reassign_all_channels_def)
next
  case True
  let ?B = "set (blocks s)"
  let ?t0 = "fold (\<lambda>conn s'. detach s' conn) (connections s) s"
  let ?tf = "fold (\<lambda>conn s'. reattach s' conn) (connections s) ?t0"
  from assms have l: "lists_consistent s" and ab: "blocks_allocated s" and ac: "conns_allocated s"
    by (simp_all add: well_formed_def)
  from l have d: "distinct (connections s)" by (simp add: lists_consistent_def)
  from fold_detach [OF d lists_consistent_counts [OF l]]
  have t0: "\<forall>x \<in> ?B. b_connections (block_store ?t0 x) = []"
    "conn_store ?t0 = conn_store s" "connections ?t0 = connections s" "blocks ?t0 = blocks s"
    by simp_all
  have r: "reassign_all_channels s answer = ?tf"
    using True by (simp add: reassign_all_channels_def Let_def t0(3))
  have m0: "bookkeeping_matches ?B ?t0 []"
    using t0(1) by (simp add: bookkeeping_matches_def src_used_channels_def
        dst_used_channels_def srcs_of_def dsts_of_def)
  have e0: "\<forall>c \<in> set (connections s).
      source_block (conn_store ?t0 c) \<in> ?B \<and> target_block (conn_store ?t0 c) \<in> ?B"
    using l by (simp add: lists_consistent_def t0(2))
  have l0: "\<forall>c \<in> set (connections s). \<forall>x \<in> ?B. c \<notin> set (b_connections (block_store ?t0 x))"
    using t0(1) by simp
  from fold_reattach [OF d m0 e0 l0]
  have f: "endpoints ?tf = endpoints ?t0" "connections ?tf = connections s" "blocks ?tf = blocks s"
    by (simp_all add: t0(3,4))
  have ends: "source_block (conn_store ?tf c) = source_block (conn_store s c) \<and>
      target_block (conn_store ?tf c) = target_block (conn_store s c)" for c
    using fun_cong [OF f(1), of c] by (simp add: endpoints_def t0(2))
  have c0: "counts_match ?B ?t0 []"
    using t0(1) by (simp add: counts_match_def)
  from fold_reattach_counts [OF c0 d]
  have cf: "counts_match ?B ?tf (rev (connections s))"
    and nf: "next_conn ?tf = next_conn ?t0" "next_block ?tf = next_block ?t0"
    by simp_all
  have cf': "counts_match ?B ?tf (connections s)"
    using cf counts_match_set [of "rev (connections s)" "connections s"] by simp
  have "lists_consistent ?tf"
    unfolding lists_consistent_iff_counts f(2,3)
    using d l cf' by (simp add: ends lists_consistent_def)
  moreover have "blocks_allocated ?tf"
    using ab by (simp add: blocks_allocated_def f(3) nf fold_detach_counters)
  moreover have "conns_allocated ?tf"
    using ac by (simp add: conns_allocated_def f(2) nf fold_detach_counters)
  ultimately show ?thesis unfolding r by (simp add: well_formed_def)
qed

text \<open>
  The loaders: the dictionary from names to blocks holds blocks of the window only, so
  every connection they construct joins two blocks of the window.
\<close>

lemma ran_update_subset: "ran m \<subseteq> A \<Longrightarrow> v \<in> A \<Longrightarrow> ran (m(k \<mapsto> v)) \<subseteq> A"
  by (auto simp: ran_def split: if_splits)

lemma ran_lookup: "ran m \<subseteq> A \<Longrightarrow> m k = Some v \<Longrightarrow> v \<in> A"
  by (auto simp: ran_def)

lemma well_formed_load_blocks:
  assumes "well_formed s" and "ran block_map \<subseteq> set (blocks s)"
  shows "well_formed (fst (snd (load_blocks rs s block_map))) \<and>
         ran (snd (snd (load_blocks rs s block_map)))
           \<subseteq> set (blocks (fst (snd (load_blocks rs s block_map))))"
  using assms
proof (induction rs arbitrary: s block_map)
  case Nil
  then show ?case by simp
next
  case (Cons r rs)
  show ?case
  proof (cases "read_block r")
    case (Inl e)
    then show ?thesis using Cons.prems by simp
  next
    case (Inr v)
    obtain x y w h name num where v: "v = (x, y, w, h, name, num)" by (cases v) auto
    let ?s2 = "(fst (Block_init s x y w h name num))\<lparr>blocks := blocks s @ [next_block s]\<rparr>"
    have wf: "well_formed ?s2" by (rule well_formed_new_block [OF Cons.prems(1)])
    have rn: "ran (block_map(name \<mapsto> next_block s)) \<subseteq> set (blocks ?s2)"
      using Cons.prems(2) by (intro ran_update_subset) auto
    have eq: "load_blocks (r # rs) s block_map =
        load_blocks rs ?s2 (block_map(name \<mapsto> next_block s))"
      by (simp add: Inr v split_def Let_def)
    show ?thesis unfolding eq by (rule Cons.IH [OF wf rn])
  qed
qed

lemma well_formed_load_fifo_infos:
  assumes "well_formed s" and "ran block_map \<subseteq> set (blocks s)"
  shows "well_formed (snd (load_fifo_infos rs block_map s))"
  using assms
proof (induction rs arbitrary: s)
  case Nil
  then show ?case by simp
next
  case (Cons r rest)
  note wf = well_formed_new_connection [OF Cons.prems(1)]
  note lk = ran_lookup [OF Cons.prems(2)]
  have step: "well_formed (snd (load_fifo_infos rest block_map
       ((fst (FIFOConnection_init s a b name dep wid src dst))
          \<lparr>connections := connections s @ [next_conn s]\<rparr>)))"
    if "a \<in> set (blocks s)" and "b \<in> set (blocks s)" for a b name dep wid src dst
    using Cons.prems by (intro Cons.IH wf that) simp_all
  show ?case
    using Cons.prems Cons.IH [of s]
    by (auto simp: split_def Let_def step lk split: sum.splits option.splits)
qed

lemma load_nested_connections_blocks:
  "blocks (snd (load_nested_connections rs source block_map s)) = blocks s"
  by (induction rs arbitrary: s)
    (auto simp: split_def Let_def split: sum.splits option.splits)

lemma well_formed_load_nested_connections:
  assumes "well_formed s" and "ran block_map \<subseteq> set (blocks s)" and "source \<in> set (blocks s)"
  shows "well_formed (snd (load_nested_connections rs source block_map s))"
  using assms
proof (induction rs arbitrary: s)
  case Nil
  then show ?case by simp
next
  case (Cons r rest)
  note wf = well_formed_new_connection [OF Cons.prems(1)]
  note lk = ran_lookup [OF Cons.prems(2)]
  have step: "well_formed (snd (load_nested_connections rest source block_map
       ((fst (FIFOConnection_init s a b name dep wid src dst))
          \<lparr>connections := connections s @ [next_conn s]\<rparr>)))"
    if "a \<in> set (blocks s)" and "b \<in> set (blocks s)" for a b name dep wid src dst
    using Cons.prems by (intro Cons.IH wf that) simp_all
  show ?case
    using Cons.prems Cons.IH [of s]
    by (auto simp: split_def Let_def step lk split: sum.splits option.splits)
qed

lemma well_formed_load_old_format:
  assumes "well_formed s" and "ran block_map \<subseteq> set (blocks s)"
  shows "well_formed (snd (load_old_format rs block_map s))"
  using assms
proof (induction rs arbitrary: s)
  case Nil
  then show ?case by simp
next
  case (Cons r rest)
  show ?case
  proof (cases "ebind (getitem r ''name'') as_str")
    case (Inl e)
    then show ?thesis using Cons.prems by simp
  next
    case name: (Inr name)
    show ?thesis
    proof (cases "block_map name")
      case None
      then show ?thesis using Cons.prems name by simp
    next
      case (Some source)
      have src: "source \<in> set (blocks s)" by (rule ran_lookup [OF Cons.prems(2) Some])
      show ?thesis
      proof (cases "ebind (get_default r ''connections'' (JArr [])) iterate")
        case (Inl e)
        then show ?thesis using Cons.prems name Some by simp
      next
        case nested: (Inr nested)
        obtain e s1 where r: "load_nested_connections nested source block_map s = (e, s1)"
          by (cases "load_nested_connections nested source block_map s") auto
        have wf1: "well_formed s1"
          using well_formed_load_nested_connections [OF Cons.prems src, of nested] r by simp
        have b1: "blocks s1 = blocks s"
          using load_nested_connections_blocks [of nested source block_map s] r by simp
        show ?thesis
        proof (cases e)
          case None
          have "well_formed (snd (load_old_format rest block_map s1))"
            using Cons.IH [OF wf1] Cons.prems(2) b1 by simp
          then show ?thesis by (simp add: name Some nested r None)
        next
          case (Some e')
          then show ?thesis using wf1 by (simp add: name \<open>block_map name = Some source\<close> nested r)
        qed
      qed
    qed
  qed
qed


lemma well_formed_load_json:
  assumes "well_formed s"
  shows "well_formed (fst (load_json s answer design_data))"
proof -
  let ?s1 = "new_design s answer"
  have w1: "well_formed ?s1" by (rule well_formed_new_design [OF assms])
  have lb: "well_formed s2 \<and> ran bm \<subseteq> set (blocks s2)"
    if "load_blocks rs ?s1 Map.empty = (e, s2, bm)" for rs e s2 bm
    using well_formed_load_blocks [OF w1, of Map.empty rs] that by simp
  have lf: "well_formed s3"
    if "well_formed s2" and "ran bm \<subseteq> set (blocks s2)" and "load_fifo_infos rs bm s2 = (e, s3)"
    for rs e s2 s3 bm
    using well_formed_load_fifo_infos [OF that(1,2), of rs] that(3) by simp
  have lo: "well_formed s3"
    if "well_formed s2" and "ran bm \<subseteq> set (blocks s2)" and "load_old_format rs bm s2 = (e, s3)"
    for rs e s2 s3 bm
    using well_formed_load_old_format [OF that(1,2), of rs] that(3) by simp
  show ?thesis
    unfolding load_json_def Let_def
    by (auto simp: w1 split: sum.splits bool.splits prod.splits option.splits
        dest: lb intro: lf lo)
qed

lemma ran_block_map_of: "ran (block_map_of s) \<subseteq> set (blocks s)"
proof -
  have "ran (fold (\<lambda>block m. m(b_name (block_store s block) \<mapsto> block)) xs m) \<subseteq> ran m \<union> set xs"
    for xs and m :: "string \<rightharpoonup> block_ref"
  proof (induction xs arbitrary: m)
    case Nil
    then show ?case by simp
  next
    case (Cons x xs)
    have "ran (m(b_name (block_store s x) \<mapsto> x)) \<subseteq> insert x (ran m)"
      by (auto simp: ran_def split: if_splits)
    with Cons.IH [of "m(b_name (block_store s x) \<mapsto> x)"] show ?case
      unfolding fold_Cons o_apply set_simps by blast
  qed
  from this [of "blocks s" Map.empty] show ?thesis by (simp add: block_map_of_def)
qed

lemma well_formed_import_records:
  assumes "well_formed s" and "ran block_map \<subseteq> set (blocks s)"
  shows "well_formed (fst (import_records rs fifo_format block_map (s, i, k)))"
  using assms
proof (induction rs arbitrary: s i k)
  case Nil
  then show ?case by simp
next
  case (Cons r rest)
  note wf = well_formed_new_connection [OF Cons.prems(1)]
  note lk = ran_lookup [OF Cons.prems(2)]
  have step: "well_formed (fst (import_records rest fifo_format block_map
       ((fst (FIFOConnection_init s a b name dep wid src dst))
          \<lparr>connections := connections s @ [next_conn s]\<rparr>, i', k')))"
    if "a \<in> set (blocks s)" and "b \<in> set (blocks s)" for a b name dep wid src dst i' k'
    using Cons.prems by (intro Cons.IH wf that) simp_all
  show ?case
    using Cons.prems Cons.IH [of s]
    by (auto simp: split_def Let_def step lk split: sum.splits option.splits)
qed

lemma well_formed_import_connections_json:
  assumes "well_formed s"
  shows "well_formed (fst (import_connections_json s data))"
proof -
  have ir: "well_formed s1"
    if "import_records rs f (block_map_of s) (s, 0, 0) = (s1, i, k)" for rs f s1 i k
    using well_formed_import_records [OF assms ran_block_map_of, of rs f 0 0] that by simp
  show ?thesis
    unfolding import_connections_json_def
    by (auto simp: assms split: sum.splits bool.splits prod.splits dest: ir)
qed

lemma well_formed_create_grid_blocks:
  assumes "well_formed s" and "ran block_map \<subseteq> set (blocks s)"
  shows "well_formed (fst (create_grid_blocks names cols i s block_map)) \<and>
         ran (snd (create_grid_blocks names cols i s block_map))
           \<subseteq> set (blocks (fst (create_grid_blocks names cols i s block_map)))"
  using assms
proof (induction names arbitrary: s block_map i)
  case Nil
  then show ?case by simp
next
  case (Cons name names)
  let ?x = "50 + of_nat (i mod cols) * 200 :: rat"
  let ?y = "50 + of_nat (i div cols) * 150 :: rat"
  let ?s2 = "(fst (Block_init s ?x ?y 150 80 name (Some (int i + 1))))
               \<lparr>blocks := blocks s @ [next_block s]\<rparr>"
  have wf: "well_formed ?s2" by (rule well_formed_new_block [OF Cons.prems(1)])
  have rn: "ran (block_map(name \<mapsto> next_block s)) \<subseteq> set (blocks ?s2)"
    using Cons.prems(2) by (intro ran_update_subset) auto
  have eq: "create_grid_blocks (name # names) cols i s block_map =
      create_grid_blocks names cols (Suc i) ?s2 (block_map(name \<mapsto> next_block s))"
    by (simp add: split_def Let_def)
  show ?case unfolding eq by (rule Cons.IH [OF wf rn])
qed

lemma well_formed_import_fifo_infos:
  assumes "well_formed s" and "ran block_map \<subseteq> set (blocks s)"
  shows "well_formed (snd (import_fifo_infos rs block_map s))"
  using assms
proof (induction rs arbitrary: s)
  case Nil
  then show ?case by simp
next
  case (Cons r rest)
  note wf = well_formed_new_connection [OF Cons.prems(1)]
  note lk = ran_lookup [OF Cons.prems(2)]
  have step: "well_formed (snd (import_fifo_infos rest block_map
       ((fst (FIFOConnection_init s a b name dep wid src dst))
          \<lparr>connections := connections s @ [next_conn s]\<rparr>)))"
    if "a \<in> set (blocks s)" and "b \<in> set (blocks s)" for a b name dep wid src dst
    using Cons.prems by (intro Cons.IH wf that) simp_all
  show ?case
    using Cons.prems Cons.IH [of s]
    by (auto simp: split_def Let_def step lk split: sum.splits option.splits)
qed

lemma well_formed_import_fifo_format:
  assumes "well_formed s"
  shows "well_formed (fst (import_fifo_format s answer data))"
proof -
  let ?s1 = "new_design s answer"
  have w1: "well_formed ?s1" by (rule well_formed_new_design [OF assms])
  have cg: "well_formed s2 \<and> ran bm \<subseteq> set (blocks s2)"
    if "create_grid_blocks names cols 0 ?s1 Map.empty = (s2, bm)" for names cols s2 bm
    using well_formed_create_grid_blocks [OF w1, of Map.empty names cols 0] that by simp
  have fi: "well_formed s3"
    if "well_formed s2" and "ran bm \<subseteq> set (blocks s2)" and "import_fifo_infos rs bm s2 = (e, s3)"
    for rs e s2 s3 bm
    using well_formed_import_fifo_infos [OF that(1,2), of rs] that(3) by simp
  show ?thesis
    unfolding import_fifo_format_def Let_def
    by (auto simp: w1 assms split: sum.splits bool.splits prod.splits option.splits
        dest: cg intro: fi)
qed

text \<open>
  Hence every diagram built by the operations is well-formed; in particular the lists
  of its blocks agree with the list of the window.
\<close>

lemma built_well_formed: "built s \<Longrightarrow> well_formed s"
proof (induction rule: built.induct)
  case built_init
  show ?case by (rule well_formed_init)
next
  case (built_add_block s name)
  then show ?case by (simp add: well_formed_add_block)
next
  case (built_create_connection s source target)
  then show ?case by (simp add: well_formed_create_connection)
next
  case (built_delete_connection s connection confirm answer)
  then show ?case by (simp add: well_formed_delete_connection)
next
  case (built_delete_block s block answer)
  then show ?case by (simp add: well_formed_delete_block)
next
  case (built_edit_connection s connection new_name new_depth new_width new_src_ch new_dst_ch)
  then show ?case by (simp add: well_formed_edit_connection)
next
  case (built_reassign_all_channels s answer)
  then show ?case by (simp add: well_formed_reassign)
next
  case (built_new_design s answer)
  then show ?case by (simp add: well_formed_new_design)
next
  case (built_load_json s answer design_data)
  then show ?case by (simp add: well_formed_load_json)
next
  case (built_import_connections_json s data)
  then show ?case by (simp add: well_formed_import_connections_json)
next
  case (built_import_fifo_format s answer data)
  then show ?case by (simp add: well_formed_import_fifo_format)
qed

lemma built_lists_consistent: "built s \<Longrightarrow> lists_consistent s"
  using built_well_formed by (simp add: well_formed_def)

lemma built_ex_three: "built ex_three"
  unfolding ex_three_def ex_two_blocks_def
  by (intro built.intros) (simp_all add: run_defs)

section \<open>Claims\<close>

text \<open>
  C5. For every block \<open>B\<close>, \<^verbatim>\<open>get_next_available_src_channel\<close> returns the smallest
  integer \<open>n \<ge> 0\<close> that is not the \<^verbatim>\<open>src_ch_num\<close> of a connection in \<open>B\<close>'s list whose
  source is \<open>B\<close>, and \<^verbatim>\<open>get_next_available_dst_channel\<close> returns the smallest
  \<open>n \<ge> 0\<close> that is not the \<^verbatim>\<open>dst_ch_num\<close> of a connection in \<open>B\<close>'s list whose target
  is \<open>B\<close>.
\<close>

theorem next_available_channel_is_minimum:
  "0 \<le> get_next_available_src_channel s B \<and>
   get_next_available_src_channel s B \<notin>
     {src_ch_num (conn_store s c) | c.
        c \<in> set (b_connections (block_store s B)) \<and> source_block (conn_store s c) = B} \<and>
   (\<forall>m. 0 \<le> m \<and> m < get_next_available_src_channel s B \<longrightarrow>
      m \<in> {src_ch_num (conn_store s c) | c.
             c \<in> set (b_connections (block_store s B)) \<and> source_block (conn_store s c) = B}) \<and>
   0 \<le> get_next_available_dst_channel s B \<and>
   get_next_available_dst_channel s B \<notin>
     {dst_ch_num (conn_store s c) | c.
        c \<in> set (b_connections (block_store s B)) \<and> target_block (conn_store s c) = B} \<and>
   (\<forall>m. 0 \<le> m \<and> m < get_next_available_dst_channel s B \<longrightarrow>
      m \<in> {dst_ch_num (conn_store s c) | c.
             c \<in> set (b_connections (block_store s B)) \<and> target_block (conn_store s c) = B})"
proof -
  have src: "set (src_used_channels s B) =
      {src_ch_num (conn_store s c) | c.
         c \<in> set (b_connections (block_store s B)) \<and> source_block (conn_store s c) = B}"
    by (auto simp: src_used_channels_def)
  have dst: "set (dst_used_channels s B) =
      {dst_ch_num (conn_store s c) | c.
         c \<in> set (b_connections (block_store s B)) \<and> target_block (conn_store s c) = B}"
    by (auto simp: dst_used_channels_def)
  have a: "0 \<le> get_next_available_src_channel s B"
    unfolding get_next_available_src_channel_def by (rule first_free_ge)
  have b: "get_next_available_src_channel s B \<notin> set (src_used_channels s B)"
    unfolding get_next_available_src_channel_def by (rule first_free_unused)
  have c: "\<forall>m. 0 \<le> m \<and> m < get_next_available_src_channel s B \<longrightarrow>
             m \<in> set (src_used_channels s B)"
    unfolding get_next_available_src_channel_def by (blast intro: first_free_below_used)
  have d: "0 \<le> get_next_available_dst_channel s B"
    unfolding get_next_available_dst_channel_def by (rule first_free_ge)
  have e: "get_next_available_dst_channel s B \<notin> set (dst_used_channels s B)"
    unfolding get_next_available_dst_channel_def by (rule first_free_unused)
  have f: "\<forall>m. 0 \<le> m \<and> m < get_next_available_dst_channel s B \<longrightarrow>
             m \<in> set (dst_used_channels s B)"
    unfolding get_next_available_dst_channel_def by (blast intro: first_free_below_used)
  from a b c d e f show ?thesis unfolding src dst by blast
qed

text \<open>
  In \<open>ex_gap\<close> block \<open>A\<close> has the outgoing channels 0, 1, 3: the next one is 2, and the
  theorem's lower part says that 0 and 1 are then in use. Block \<open>B\<close> has the incoming
  channels 0, 1, 2, and the next one is 3.
\<close>

theorem next_available_channel_is_minimum_witness:
  "src_used_channels ex_gap 0 = [0, 1, 3] \<and>
   get_next_available_src_channel ex_gap 0 = 2 \<and>
   (0::int) \<le> 1 \<and> 1 < get_next_available_src_channel ex_gap 0 \<and>
   1 \<in> {src_ch_num (conn_store ex_gap c) | c.
          c \<in> set (b_connections (block_store ex_gap 0)) \<and> source_block (conn_store ex_gap c) = 0} \<and>
   get_next_available_dst_channel ex_gap 1 = 3"
proof -
  have u: "src_used_channels ex_gap 0 = [0, 1, 3]"
    by (simp add: ex_defs run_defs)
  have n: "get_next_available_src_channel ex_gap 0 = 2"
    by (simp add: ex_defs run_defs)
  have d: "get_next_available_dst_channel ex_gap 1 = 3"
    by (simp add: ex_defs run_defs)
  have h: "(0::int) \<le> 1 \<and> 1 < get_next_available_src_channel ex_gap 0" using n by simp
  from next_available_channel_is_minimum [of ex_gap 0] h
  have "1 \<in> {src_ch_num (conn_store ex_gap c) | c.
          c \<in> set (b_connections (block_store ex_gap 0)) \<and> source_block (conn_store ex_gap c) = 0}"
    by blast
  with u n d h show ?thesis by blast
qed







text \<open>
  C6, the uniqueness of the name. After \<open>FIFO\<close>, \<open>FIFO_2\<close>, \<open>FIFO_3\<close> between \<open>A\<close> and
  \<open>B\<close>, deleting \<open>FIFO_2\<close> and drawing one more connection counts two existing
  connections and names the new one \<open>FIFO_3\<close> again.
\<close>

theorem recreated_name_not_unique:
  "map (\<lambda>c. c_name (conn_store ex_three c)) (connections ex_three) = [''FIFO'', ''FIFO_2'', ''FIFO_3''] \<and>
   connections ex_recreated = [0, 2, 3] \<and>
   map (\<lambda>c. c_name (conn_store ex_recreated c)) (connections ex_recreated) = [''FIFO'', ''FIFO_3'', ''FIFO_3''] \<and>
   filter (joins ex_recreated 0 1) (connections ex_recreated) = [0, 2, 3]"
  by (simp add: ex_defs run_defs str_nat.simps)

text \<open>
  C3, the bound of 15. \<^verbatim>\<open>load_json\<close> does not ask \<^verbatim>\<open>can_add_connection\<close>: loading
  \<open>ex_design_16\<close> into the empty window succeeds and leaves block \<open>A\<close> (reference 0)
  with sixteen connections.
\<close>

theorem load_json_exceeds_connection_cap:
  "snd (load_json init_gui True ex_design_16) = Success \<and>
   map (\<lambda>b. b_name (block_store (fst (load_json init_gui True ex_design_16)) b))
     (blocks (fst (load_json init_gui True ex_design_16))) = [''A'', ''B''] \<and>
   length (b_connections (block_store (fst (load_json init_gui True ex_design_16)) 0)) = 16"
  by (simp add: file_defs load_defs step_defs eval_nat_numeral)

text \<open>
  C4, for \<^verbatim>\<open>load_json\<close>. The file \<open>ex_no_keys\<close> has no \<^verbatim>\<open>"blocks"\<close> key; loading it
  over the diagram \<open>ex_three\<close>, with the clearing confirmed, reports the format error
  after the two blocks and the three connections are gone.
\<close>

theorem load_json_clears_before_format_check:
  "blocks ex_three = [0, 1] \<and> connections ex_three = [0, 1, 2] \<and>
   contains ex_no_keys ''blocks'' = Inr False \<and>
   snd (load_json ex_three True ex_no_keys) = Failed \<and>
   blocks (fst (load_json ex_three True ex_no_keys)) = [] \<and>
   connections (fst (load_json ex_three True ex_no_keys)) = []"
  by (simp add: file_defs load_defs ex_defs run_defs)




text \<open>
  C8. For a diagram whose block lists agree with the window's list, the confirmed
  \<^verbatim>\<open>reassign_all_channels\<close> keeps the list of connections and their end blocks and
  gives the connections, in list order, the channels of the specification's assignment,
  which depends on the end blocks only, not on the channels held before; creating the
  connections from scratch in the same order gives the same channels.
\<close>

theorem reassign_all_channels_from_scratch:
  assumes "lists_consistent s"
  shows "connections (reassign_all_channels s True) = connections s \<and>
         map (endpoints (reassign_all_channels s True)) (connections s) =
           map (endpoints s) (connections s) \<and>
         map (channels (reassign_all_channels s True)) (connections s) =
           spec_assign_channels [] (map (endpoints s) (connections s)) \<and>
         map (channels (create_in_order (map (endpoints s) (connections s)) (without_connections s)))
             (connections (create_in_order (map (endpoints s) (connections s)) (without_connections s))) =
           map (channels (reassign_all_channels s True)) (connections s)"
  using reassign_all_channels_spec [OF assms]
    create_from_scratch_spec [of "map (endpoints s) (connections s)" s]
  by simp

text \<open>
  In \<open>ex_gap\<close> three connections share the source block \<open>A\<close> and hold the source
  channels 0, 1, 3; after the reassignment they hold 0, 1, 2.
\<close>

theorem reassign_all_channels_from_scratch_witness:
  "map (endpoints ex_gap) (connections ex_gap) = [(0, 1), (0, 1), (0, 1)] \<and>
   map (channels ex_gap) (connections ex_gap) = [(0, 0), (1, 1), (3, 2)] \<and>
   map (channels (reassign_all_channels ex_gap True))
     (connections (reassign_all_channels ex_gap True)) = [(0, 0), (1, 1), (2, 2)]"
proof -
  have e: "map (endpoints ex_gap) (connections ex_gap) = [(0, 1), (0, 1), (0, 1)]"
    by (simp add: endpoints_def ex_defs run_defs)
  have c: "map (channels ex_gap) (connections ex_gap) = [(0, 0), (1, 1), (3, 2)]"
    by (simp add: channels_def ex_defs run_defs)
  have sp: "spec_assign_channels [] [(0, 1), (0, 1), (0, 1)] = [(0, 0), (1, 1), (2, 2)]"
    by (simp add: srcs_of_def dsts_of_def first_free.simps)
  from reassign_all_channels_from_scratch [OF ex_gap_consistent]
  have "connections (reassign_all_channels ex_gap True) = connections ex_gap"
    and "map (channels (reassign_all_channels ex_gap True)) (connections ex_gap) =
           spec_assign_channels [] (map (endpoints ex_gap) (connections ex_gap))"
    by blast+
  then have "map (channels (reassign_all_channels ex_gap True))
     (connections (reassign_all_channels ex_gap True)) = [(0, 0), (1, 1), (2, 2)]"
    by (simp only: e sp)
  with e c show ?thesis by blast
qed

text \<open>
  C2, as amended. Creating a connection with \<^verbatim>\<open>create_connection_between_blocks\<close>
  keeps the channels unique, in a diagram whose block lists agree with the window's list
  and whose connections have been created; and the confirmed \<^verbatim>\<open>reassign_all_channels\<close>
  makes them unique whatever they were before.
\<close>

theorem creation_and_reassignment_keep_channels_unique:
  "(channels_unique s \<and> lists_consistent s \<and> conns_allocated s \<longrightarrow>
      channels_unique (fst (create_connection_between_blocks s a b))) \<and>
   (lists_consistent s \<longrightarrow> channels_unique (reassign_all_channels s True))"
  using create_preserves_unique reassign_establishes_unique by blast

text \<open>
  The channels of \<open>ex_three\<close> are unique and stay so when a fourth connection is drawn;
  those of \<open>ex_clash\<close> are not, and become unique by the reassignment.
\<close>

theorem creation_and_reassignment_keep_channels_unique_witness:
  "channels_unique ex_three \<and>
   channels_unique (fst (create_connection_between_blocks ex_three 0 1)) \<and>
   \<not> channels_unique ex_clash \<and>
   channels_unique (reassign_all_channels ex_clash True)"
proof -
  have u: "channels_unique ex_three"
    by (auto simp: channels_unique_def ex_defs run_defs)
  have al: "conns_allocated ex_three"
    by (simp add: conns_allocated_def ex_defs run_defs)
  have "\<not> distinct (map (\<lambda>c. src_ch_num (conn_store ex_clash c))
          (filter (\<lambda>c. source_block (conn_store ex_clash c) = 0) (connections ex_clash)))"
    by (simp add: ex_defs run_defs)
  then have n: "\<not> channels_unique ex_clash"
    unfolding channels_unique_def by blast
  from creation_and_reassignment_keep_channels_unique [of ex_three 0 1] u ex_three_consistent al
  have 1: "channels_unique (fst (create_connection_between_blocks ex_three 0 1))" by blast
  from creation_and_reassignment_keep_channels_unique [of ex_clash 0 1] ex_clash_consistent
  have 2: "channels_unique (reassign_all_channels ex_clash True)" by blast
  from u 1 n 2 show ?thesis by blast
qed

text \<open>
  C2, as stated, fails for the property edit: in \<open>ex_three\<close> the channels are unique;
  the dialog accepts the channels 0 and 0 for the third connection (they are not
  negative), and then two connections that leave block \<open>A\<close> hold the source channel 0.
\<close>

theorem connection_edit_breaks_channels_unique:
  "channels_unique ex_three \<and> \<not> channels_unique ex_clash"
proof
  show "channels_unique ex_three"
    by (auto simp: channels_unique_def ex_defs run_defs)
  have "\<not> distinct (map (\<lambda>c. src_ch_num (conn_store ex_clash c))
          (filter (\<lambda>c. source_block (conn_store ex_clash c) = 0) (connections ex_clash)))"
    by (simp add: ex_defs run_defs)
  then show "\<not> channels_unique ex_clash"
    unfolding channels_unique_def by blast
qed





text \<open>
  When the user declines the clearing, \<^verbatim>\<open>new_design\<close> returns without clearing and the
  import goes on: the blocks of the file are added to the blocks that were there.
\<close>

lemma import_fifo_format_merges_when_declined:
  "blocks ex_two_blocks = [0, 1] \<and>
   snd (import_fifo_format ex_two_blocks False ex_fifo_one) = Success \<and>
   map (\<lambda>b. b_name (block_store (fst (import_fifo_format ex_two_blocks False ex_fifo_one)) b))
     (blocks (fst (import_fifo_format ex_two_blocks False ex_fifo_one))) =
     [''A'', ''B'', ''X'', ''Y'']"
  by (simp add: file_defs load_defs ex_defs run_defs step_defs ceil_sqrt_from.simps)

end
